theory Spec2Isabelle
  imports Complex_Main
begin

section \<open>JavaScript numbers\<close>

text \<open>
  The overlay computes with JavaScript numbers. They are modelled as exact reals:
  rounding of IEEE doubles is outside this model, and every statement below about an
  angle or a scale is a statement of exact arithmetic.

  The operator \<^verbatim>\<open>%\<close> of JavaScript is the truncated remainder: the quotient is
  rounded towards zero, so the result has the sign of the dividend.
\<close>

definition js_trunc :: "real \<Rightarrow> int" where
  "js_trunc x = (if 0 \<le> x then \<lfloor>x\<rfloor> else \<lceil>x\<rceil>)"

definition js_rem :: "real \<Rightarrow> real \<Rightarrow> real" where
  "js_rem a b = a - b * real_of_int (js_trunc (a / b))"

section \<open>Values on the wire\<close>

datatype json =
    JNull
  | JBool bool
  | JNum real
  | JStr string
  | JArr "json list"
  | JObj "(string \<times> json) list"

text \<open>
  The field \<^verbatim>\<open>data.items\<close> of a trigger: a falsy value (missing, null, 0, the empty
  string), a truthy value that is not an array, or an array of labels. The empty array
  is truthy in JavaScript.
\<close>

datatype items_field =
    ItemsFalsy
  | ItemsOther
  | ItemsArray "string list"

fun items_truthy :: "items_field \<Rightarrow> bool" where
  "items_truthy ItemsFalsy = False"
| "items_truthy ItemsOther = True"
| "items_truthy (ItemsArray xs) = True"

fun Array_isArray :: "items_field \<Rightarrow> bool" where
  "Array_isArray (ItemsArray xs) = True"
| "Array_isArray f = False"

fun items_of :: "items_field \<Rightarrow> string list" where
  "items_of (ItemsArray xs) = xs"
| "items_of f = []"

record wheel_data =
  d_items :: items_field
  d_actions :: "(string \<times> json) list option"

record position =
  p_x :: real
  p_y :: real
  p_scale :: "real option"

record positions =
  pos_wheel :: "position option"

datatype server_event =
    TriggerAction string "wheel_data option"
  | ConfigUpdate "positions option"
  | Ping
  | UnknownType string

datatype message =
    RequestConfig
  | PositionUpdate string real real real
  | WheelResult string "json option"

text \<open>
  The text frame that \<^verbatim>\<open>JSON.stringify\<close> makes of a message. The encoder is a
  builtin of the browser and is kept symbolic.
\<close>

datatype frame = JSON_stringify message

section \<open>State\<close>

datatype log_entry = Log string | Warn string | Error string

datatype callback = ShowResultFade | ShowResultClear | HideContainer | Reconnect

datatype ready_state = CONNECTING | OPEN

text \<open>The fields of the class \<^verbatim>\<open>SpinningWheel\<close>.\<close>

record wheel_obj =
  items :: "string list"
  currentRotation :: real
  isSpinning :: bool
  isShowingResult :: bool
  hideTimeout :: "nat option"
  resultTimeout :: "nat option"

text \<open>
  What the scripts read and write of the document: the container of the wheel (its class
  \<^verbatim>\<open>hidden\<close>, its position, its transform as the pair of "has a translate part" and the
  scale, its \<^verbatim>\<open>dataset.scale\<close>) and the result label.
\<close>

record page =
  container_hidden :: bool
  container_left :: "real option"
  container_top :: "real option"
  container_transform :: "(bool \<times> real) option"
  container_scale :: "real option"
  result_text :: string
  result_hidden :: bool
  result_fade_out :: bool

text \<open>The variables that one run of \<^verbatim>\<open>spin\<close> closes over.\<close>

record spin_closure =
  startTime :: int
  startRotation :: real
  totalRotation :: real
  wheelData :: wheel_data

text \<open>
  The globals of the main script, followed by the part of the browser they act on: the
  pending timers (handle, callback, delay), the sockets that are not closed, the pending
  animation frame, the frames transmitted on a socket and the console.
\<close>

record state =
  wheel :: wheel_obj
  page :: page
  ws :: "nat option"
  reconnectTimeout :: "nat option"
  configMode :: bool
  resizeElement :: bool
  isResizing :: bool
  resizeStartScale :: real
  resizeStartX :: real
  resizeStartY :: real
  timers :: "(nat \<times> callback \<times> nat) list"
  next_timer :: nat
  sockets :: "(nat \<times> ready_state) list"
  next_socket :: nat
  raf :: "spin_closure option"
  sent :: "(nat \<times> frame) list"
  console :: "log_entry list"

text \<open>What one handler reads of the environment: two random numbers and two clock readings.\<close>

record reads =
  rand1 :: real
  rand2 :: real
  now0 :: int
  now1 :: int

definition RECONNECT_INTERVAL :: nat where
  "RECONNECT_INTERVAL = 3000"

definition spinDuration :: real where
  "spinDuration = 4000"

section \<open>Browser primitives\<close>

definition console_log :: "string \<Rightarrow> state \<Rightarrow> state" where
  "console_log m s = s\<lparr>console := console s @ [Log m]\<rparr>"

definition console_warn :: "string \<Rightarrow> state \<Rightarrow> state" where
  "console_warn m s = s\<lparr>console := console s @ [Warn m]\<rparr>"

definition console_error :: "string \<Rightarrow> state \<Rightarrow> state" where
  "console_error m s = s\<lparr>console := console s @ [Error m]\<rparr>"

definition setTimeout :: "callback \<Rightarrow> nat \<Rightarrow> state \<Rightarrow> nat \<times> state" where
  "setTimeout cb ms s =
     (next_timer s,
      s\<lparr>timers := timers s @ [(next_timer s, cb, ms)], next_timer := Suc (next_timer s)\<rparr>)"

definition clearTimeout :: "nat \<Rightarrow> state \<Rightarrow> state" where
  "clearTimeout i s = s\<lparr>timers := filter (\<lambda>t. fst t \<noteq> i) (timers s)\<rparr>"

definition readyState :: "state \<Rightarrow> nat \<Rightarrow> ready_state option" where
  "readyState s i = map_of (sockets s) i"

section \<open>The transport\<close>

definition send :: "message \<Rightarrow> state \<Rightarrow> state" where
  "send data s =
     (case ws s of
        None \<Rightarrow> console_warn ''WebSocket not connected, cannot send message'' s
      | Some i \<Rightarrow>
          if readyState s i = Some OPEN
          then s\<lparr>sent := sent s @ [(i, JSON_stringify data)]\<rparr>
          else console_warn ''WebSocket not connected, cannot send message'' s)"

definition connect :: "bool \<Rightarrow> state \<Rightarrow> state" where
  "connect throws s =
     (let s0 = console_log ''Connecting to WebSocket...'' s in
      if throws
      then (let s1 = console_error ''Failed to connect:'' s0;
                (i, s2) = setTimeout Reconnect RECONNECT_INTERVAL s1
            in s2\<lparr>reconnectTimeout := Some i\<rparr>)
      else s0\<lparr>ws := Some (next_socket s0),
              sockets := sockets s0 @ [(next_socket s0, CONNECTING)],
              next_socket := Suc (next_socket s0)\<rparr>)"

definition onopen :: "state \<Rightarrow> state" where
  "onopen s =
     (let s0 = console_log ''WebSocket connected'' s;
          s1 = (case reconnectTimeout s0 of
                  None \<Rightarrow> s0
                | Some i \<Rightarrow> (clearTimeout i s0)\<lparr>reconnectTimeout := None\<rparr>)
      in send RequestConfig s1)"

definition onerror :: "state \<Rightarrow> state" where
  "onerror s = console_error ''WebSocket error:'' s"

definition onclose :: "state \<Rightarrow> state" where
  "onclose s =
     (let s0 = console_log ''WebSocket disconnected'' s;
          s1 = s0\<lparr>ws := None\<rparr>;
          (i, s2) = setTimeout Reconnect RECONNECT_INTERVAL s1
      in s2\<lparr>reconnectTimeout := Some i\<rparr>)"

section \<open>The wheel\<close>

text \<open>
  Drawing on the canvas (\<^verbatim>\<open>draw\<close>) changes nothing that the scripts read back, and is
  left out.
\<close>

definition setItems :: "string list \<Rightarrow> state \<Rightarrow> state" where
  "setItems its s = s\<lparr>wheel := (wheel s)\<lparr>items := its\<rparr>\<rparr>"

definition isBusy :: "wheel_obj \<Rightarrow> bool" where
  "isBusy w = (isSpinning w \<or> isShowingResult w)"

definition reset :: "state \<Rightarrow> state" where
  "reset s =
     (let s1 = (case hideTimeout (wheel s) of
                  None \<Rightarrow> s
                | Some i \<Rightarrow> (let c = clearTimeout i s in c\<lparr>wheel := (wheel c)\<lparr>hideTimeout := None\<rparr>\<rparr>));
          s2 = (case resultTimeout (wheel s1) of
                  None \<Rightarrow> s1
                | Some i \<Rightarrow> (let c = clearTimeout i s1 in c\<lparr>wheel := (wheel c)\<lparr>resultTimeout := None\<rparr>\<rparr>));
          s3 = s2\<lparr>page := (page s2)\<lparr>result_hidden := True, result_fade_out := False, result_text := []\<rparr>\<rparr>;
          s4 = s3\<lparr>wheel := (wheel s3)\<lparr>isShowingResult := False\<rparr>\<rparr>
      in s4\<lparr>page := (page s4)\<lparr>container_hidden := False\<rparr>\<rparr>)"

definition showResult :: "string \<Rightarrow> state \<Rightarrow> state" where
  "showResult result s =
     (let s1 = s\<lparr>page := (page s)\<lparr>result_text := result, result_hidden := False\<rparr>\<rparr>;
          s2 = (case resultTimeout (wheel s1) of None \<Rightarrow> s1 | Some i \<Rightarrow> clearTimeout i s1);
          (i, s3) = setTimeout ShowResultFade 3000 s2
      in s3\<lparr>wheel := (wheel s3)\<lparr>resultTimeout := Some i\<rparr>\<rparr>)"

definition hide :: "state \<Rightarrow> state" where
  "hide s =
     (let s1 = (case hideTimeout (wheel s) of None \<Rightarrow> s | Some i \<Rightarrow> clearTimeout i s);
          (i, s2) = setTimeout HideContainer 4000 s1
      in s2\<lparr>wheel := (wheel s2)\<lparr>hideTimeout := Some i\<rparr>\<rparr>)"

text \<open>
  The rest of \<^verbatim>\<open>spinAndShow\<close> after the \<^verbatim>\<open>await\<close>. The result is \<open>None\<close> for
  \<^verbatim>\<open>null\<close> and \<^verbatim>\<open>undefined\<close>; the test \<^verbatim>\<open>if (result)\<close> is a test of truthiness,
  which the empty string fails as well.
\<close>

text \<open>
  \<^verbatim>\<open>wheelData?.actions?.[result]\<close>, for the keys that the object of the message has
  itself. A label that names an inherited property of every object (such as
  \<^verbatim>\<open>__proto__\<close>) reads that property in JavaScript; this is not modelled.
\<close>

definition action_of :: "wheel_data \<Rightarrow> string \<Rightarrow> json option" where
  "action_of wd result = (case d_actions wd of None \<Rightarrow> None | Some acts \<Rightarrow> map_of acts result)"

definition afterSpin :: "wheel_data \<Rightarrow> string option \<Rightarrow> state \<Rightarrow> state" where
  "afterSpin wd result s =
     (case result of
        None \<Rightarrow> s
      | Some r \<Rightarrow>
          if r = [] then s
          else send (WheelResult r (action_of wd r)) (hide (showResult r s)))"

text \<open>
  The index of the slice under the pointer, in exact arithmetic and with the real number
  \<open>pi\<close> (the rounding of the doubles of the program is not modelled). With no item the
  slice angle is \<^verbatim>\<open>Infinity\<close> in JavaScript and the quotient is 0.
\<close>

definition winnerIndex :: "nat \<Rightarrow> real \<Rightarrow> int" where
  "winnerIndex n rot =
     (if n = 0 then 0
      else (let sliceAngle = (2 * pi) / real n;
                normalizedRotation = js_rem (2 * pi - js_rem rot (2 * pi)) (2 * pi)
            in \<lfloor>normalizedRotation / sliceAngle\<rfloor>))"

text \<open>Reading an array out of range gives \<^verbatim>\<open>undefined\<close>.\<close>

definition item_at :: "string list \<Rightarrow> int \<Rightarrow> string option" where
  "item_at xs i = (if 0 \<le> i \<and> i < int (length xs) then Some (xs ! nat i) else None)"

text \<open>
  The last branch of \<^verbatim>\<open>animate\<close>, one state after each assignment: the rotation is
  normalised, \<^verbatim>\<open>isShowingResult\<close> is set, \<^verbatim>\<open>isSpinning\<close> is cleared.
\<close>

definition finish_steps :: "state \<Rightarrow> state list" where
  "finish_steps s =
     (let n1 = s\<lparr>wheel := (wheel s)\<lparr>currentRotation := js_rem (currentRotation (wheel s)) (2 * pi)\<rparr>\<rparr>;
          n2 = n1\<lparr>wheel := (wheel n1)\<lparr>isShowingResult := True\<rparr>\<rparr>;
          n3 = n2\<lparr>wheel := (wheel n2)\<lparr>isSpinning := False\<rparr>\<rparr>
      in [n1, n2, n3])"

definition winner_of :: "state \<Rightarrow> string option" where
  "winner_of n1 =
     item_at (items (wheel n1))
       (winnerIndex (length (items (wheel n1))) (currentRotation (wheel n1)))"

definition animate :: "spin_closure \<Rightarrow> int \<Rightarrow> state \<Rightarrow> state" where
  "animate cl now s =
     (let elapsed = now - startTime cl;
          progress = min (real_of_int elapsed / spinDuration) 1;
          easeOut = 1 - (1 - progress) ^ 3;
          s1 = s\<lparr>wheel := (wheel s)\<lparr>currentRotation := startRotation cl + totalRotation cl * easeOut\<rparr>\<rparr>
      in if progress < 1 then s1\<lparr>raf := Some cl\<rparr>
         else afterSpin (wheelData cl) (winner_of (hd (finish_steps s1))) (last (finish_steps s1)))"

text \<open>
  \<^verbatim>\<open>spin\<close> together with the continuation of its caller: the promise resolves with
  \<^verbatim>\<open>null\<close> at once, or with the winner in the last call of \<^verbatim>\<open>animate\<close>.
\<close>

definition spin :: "reads \<Rightarrow> wheel_data \<Rightarrow> state \<Rightarrow> state" where
  "spin rd wd s =
     (if isSpinning (wheel s) \<or> length (items (wheel s)) = 0 then afterSpin wd None s
      else (let s1 = s\<lparr>wheel := (wheel s)\<lparr>isSpinning := True\<rparr>\<rparr>;
                s2 = s1\<lparr>page := (page s1)\<lparr>container_hidden := False\<rparr>\<rparr>;
                fullRotations = 3 + rand1 rd * 3;
                randomOffset = rand2 rd * 2 * pi;
                total = fullRotations * 2 * pi + randomOffset;
                cl = \<lparr>startTime = now0 rd, startRotation = currentRotation (wheel s2),
                      totalRotation = total, wheelData = wd\<rparr>
            in animate cl (now1 rd) s2))"

definition spinAndShow :: "reads \<Rightarrow> wheel_data \<Rightarrow> state \<Rightarrow> state" where
  "spinAndShow rd wd s =
     (if isBusy (wheel s)
      then console_warn ''Wheel is busy (spinning or showing result), ignoring new spin request'' s
      else spin rd wd (reset s))"

section \<open>Dispatch of server events\<close>

datatype exn = TypeError

definition handleTriggerAction :: "reads \<Rightarrow> string \<Rightarrow> wheel_data option \<Rightarrow> state \<Rightarrow> exn + state" where
  "handleTriggerAction rd action_type data s =
     (if action_type = ''spin_wheel''
      then (case data of
              None \<Rightarrow> Inl TypeError
            | Some d \<Rightarrow>
                if items_truthy (d_items d) \<and> Array_isArray (d_items d)
                then Inr (spinAndShow rd d (setItems (items_of (d_items d)) s))
                else Inr s)
      else Inr (console_warn ''Unknown action type:'' s))"

definition applyPositions :: "positions \<Rightarrow> state \<Rightarrow> state" where
  "applyPositions ps s =
     (case pos_wheel ps of
        None \<Rightarrow> s
      | Some w \<Rightarrow>
          (let scale = (case p_scale w of None \<Rightarrow> 1 | Some v \<Rightarrow> if v = 0 then 1 else v)
           in s\<lparr>page := (page s)\<lparr>container_left := Some (p_x w),
                                  container_top := Some (p_y w),
                                  container_transform := Some (True, scale),
                                  container_scale := Some scale\<rparr>\<rparr>))"

definition handleConfigUpdate :: "positions option \<Rightarrow> state \<Rightarrow> state" where
  "handleConfigUpdate ps s = (case ps of None \<Rightarrow> s | Some p \<Rightarrow> applyPositions p s)"

fun handleEvent :: "reads \<Rightarrow> server_event \<Rightarrow> state \<Rightarrow> exn + state" where
  "handleEvent rd (TriggerAction action_type data) s = handleTriggerAction rd action_type data s"
| "handleEvent rd (ConfigUpdate ps) s = Inr (handleConfigUpdate ps s)"
| "handleEvent rd Ping s = Inr s"
| "handleEvent rd (UnknownType t) s = Inr (console_warn ''Unknown event type:'' s)"

text \<open>
  \<^verbatim>\<open>onmessage\<close>: the event is \<open>None\<close> when the text does not parse; an
  exception of the handler is caught with it.
\<close>

definition onmessage :: "reads \<Rightarrow> server_event option \<Rightarrow> state \<Rightarrow> state" where
  "onmessage rd ev s =
     (case ev of
        None \<Rightarrow> console_error ''Failed to parse message:'' s
      | Some e \<Rightarrow>
          (let s0 = console_log ''Received event:'' s in
           case handleEvent rd e s0 of
             Inl x \<Rightarrow> console_error ''Failed to parse message:'' s0
           | Inr s1 \<Rightarrow> s1))"

section \<open>Configuration mode and the resize gesture\<close>

text \<open>
  Of the configuration mode the model keeps the flag; the panel, the handles and the scale
  indicator are display only. The only widget is the wheel, so \<^verbatim>\<open>resizeElement\<close> is
  either \<^verbatim>\<open>null\<close> or the container of the wheel. The drag gesture moves the container
  and does not write the scale; it is not modelled. The centre that \<^verbatim>\<open>stopResize\<close> reads
  from the rendered geometry is an input.
\<close>

definition toggleConfigMode :: "state \<Rightarrow> state" where
  "toggleConfigMode s = s\<lparr>configMode := \<not> configMode s\<rparr>"

definition dataset_scale :: "state \<Rightarrow> real" where
  "dataset_scale s = (case container_scale (page s) of None \<Rightarrow> 1 | Some v \<Rightarrow> v)"

definition startResize :: "real \<Rightarrow> real \<Rightarrow> state \<Rightarrow> state" where
  "startResize clientX clientY s =
     (if \<not> configMode s then s
      else s\<lparr>resizeElement := True, isResizing := True,
             resizeStartX := clientX, resizeStartY := clientY,
             resizeStartScale := dataset_scale s\<rparr>)"

definition resize :: "real \<Rightarrow> real \<Rightarrow> state \<Rightarrow> state" where
  "resize clientX clientY s =
     (if \<not> resizeElement s \<or> \<not> isResizing s then s
      else (let deltaX = clientX - resizeStartX s;
                deltaY = clientY - resizeStartY s;
                delta = max deltaX deltaY;
                scaleChange = delta / 200;
                newScale = resizeStartScale s + scaleChange;
                newScale = max 0.3 (min 3.0 newScale)
            in s\<lparr>page := (page s)\<lparr>container_scale := Some newScale,
                     container_transform :=
                       (case container_transform (page s) of
                          None \<Rightarrow> Some (False, newScale)
                        | Some (tr, old) \<Rightarrow> Some (tr, newScale))\<rparr>\<rparr>))"

definition stopResize :: "real \<Rightarrow> real \<Rightarrow> state \<Rightarrow> state" where
  "stopResize x y s =
     (if \<not> resizeElement s \<or> \<not> isResizing s then s
      else (let newScale = dataset_scale s;
                s1 = send (PositionUpdate ''wheel'' x y newScale) s
            in s1\<lparr>resizeElement := False, isResizing := False\<rparr>))"

definition defaults :: positions where
  "defaults = \<lparr>pos_wheel = Some \<lparr>p_x = 50, p_y = 50, p_scale = Some 1.0\<rparr>\<rparr>"

definition resetPositions :: "state \<Rightarrow> state" where
  "resetPositions s = applyPositions defaults (send (PositionUpdate ''wheel'' 50 50 1.0) s)"

section \<open>The event loop\<close>

datatype input =
    SocketOpen nat
  | SocketMessage nat "server_event option" reads
  | SocketError nat
  | SocketClose nat
  | TimerFire nat bool
  | AnimationFrame int
  | KeyC
  | HandleMouseDown real real
  | MouseMove real real
  | MouseUp real real
  | ResetClick

text \<open>
  The callbacks of the timers. The reconnect timer of \<^verbatim>\<open>onclose\<close> logs a line and
  calls \<^verbatim>\<open>connect\<close>; the one that the \<^verbatim>\<open>catch\<close> branch of \<^verbatim>\<open>connect\<close> sets
  calls \<^verbatim>\<open>connect\<close> without that line. The model has one callback for both and
  logs the line in both cases; the two differ on the console only.
\<close>

fun run_callback :: "callback \<Rightarrow> bool \<Rightarrow> state \<Rightarrow> state" where
  "run_callback ShowResultFade b s =
     snd (setTimeout ShowResultClear 500 (s\<lparr>page := (page s)\<lparr>result_fade_out := True\<rparr>\<rparr>))"
| "run_callback ShowResultClear b s =
     (let s1 = s\<lparr>page := (page s)\<lparr>result_hidden := True, result_fade_out := False\<rparr>\<rparr>
      in s1\<lparr>wheel := (wheel s1)\<lparr>isShowingResult := False\<rparr>\<rparr>)"
| "run_callback HideContainer b s = s\<lparr>page := (page s)\<lparr>container_hidden := True\<rparr>\<rparr>"
| "run_callback Reconnect b s = connect b (console_log ''Attempting to reconnect...'' s)"

text \<open>
  One turn of the event loop. An input that the browser cannot deliver in the state (an
  event of a socket that is closed, a timer that is not pending, a frame that was not
  requested) leaves the state as it is. The flag of \<open>TimerFire\<close> says whether the
  constructor of the socket throws, should the timer reconnect.
\<close>

fun step :: "input \<Rightarrow> state \<Rightarrow> state" where
  "step (SocketOpen i) s =
     (if readyState s i = Some CONNECTING
      then onopen (s\<lparr>sockets := map (\<lambda>(j, r). if j = i then (j, OPEN) else (j, r)) (sockets s)\<rparr>)
      else s)"
| "step (SocketMessage i ev rd) s =
     (if readyState s i = Some OPEN then onmessage rd ev s else s)"
| "step (SocketError i) s =
     (if readyState s i \<noteq> None then onerror s else s)"
| "step (SocketClose i) s =
     (if readyState s i \<noteq> None
      then onclose (s\<lparr>sockets := filter (\<lambda>p. fst p \<noteq> i) (sockets s)\<rparr>)
      else s)"
| "step (TimerFire i b) s =
     (case find (\<lambda>t. fst t = i) (timers s) of
        None \<Rightarrow> s
      | Some t \<Rightarrow> run_callback (fst (snd t)) b (clearTimeout i s))"
| "step (AnimationFrame now) s =
     (case raf s of None \<Rightarrow> s | Some cl \<Rightarrow> animate cl now (s\<lparr>raf := None\<rparr>))"
| "step KeyC s = toggleConfigMode s"
| "step (HandleMouseDown x y) s = (if configMode s then startResize x y s else s)"
| "step (MouseMove x y) s = resize x y s"
| "step (MouseUp x y) s = stopResize x y s"
| "step ResetClick s = resetPositions s"

definition init_wheel :: wheel_obj where
  "init_wheel = \<lparr>items = [], currentRotation = 0, isSpinning = False, isShowingResult = False,
                 hideTimeout = None, resultTimeout = None\<rparr>"

definition init_page :: page where
  "init_page = \<lparr>container_hidden = True, container_left = None, container_top = None,
                container_transform = None, container_scale = None,
                result_text = [], result_hidden = True, result_fade_out = False\<rparr>"

definition init_state :: state where
  "init_state = \<lparr>wheel = init_wheel, page = init_page, ws = None, reconnectTimeout = None,
                 configMode = False, resizeElement = False, isResizing = False,
                 resizeStartScale = 1, resizeStartX = 0, resizeStartY = 0,
                 timers = [], next_timer = 1, sockets = [], next_socket = 0,
                 raf = None, sent = [], console = []\<rparr>"

text \<open>
  The handler of \<^verbatim>\<open>DOMContentLoaded\<close>: the wheel is made, the socket is opened and
  the configuration mode is entered when the address of the page asks for it.
\<close>

definition page_load :: "bool \<Rightarrow> bool \<Rightarrow> state" where
  "page_load throws config =
     (let s = connect throws (console_log ''Yambot Overlay Initialized'' init_state)
      in if config then toggleConfigMode s else s)"

definition run :: "input list \<Rightarrow> state \<Rightarrow> state" where
  "run evs s = foldl (\<lambda>s e. step e s) s evs"

section \<open>The statements of the specification\<close>

text \<open>
  The remainder as the specification writes it (\<open>mod\<close>, with a result in \<open>[0, b)\<close>),
  and the winner index of its section 4.2, in its own words.
\<close>

definition real_mod :: "real \<Rightarrow> real \<Rightarrow> real" where
  "real_mod a b = a - b * real_of_int \<lfloor>a / b\<rfloor>"

definition spec_winner_index :: "nat \<Rightarrow> real \<Rightarrow> int" where
  "spec_winner_index itemCount rotation =
     \<lfloor>real_mod (2 * pi - real_mod rotation (2 * pi)) (2 * pi) / ((2 * pi) / real itemCount)\<rfloor>"


definition scale_in_range :: "real \<Rightarrow> bool" where
  "scale_in_range v = (0.3 \<le> v \<and> v \<le> 3.0)"

text \<open>The channel is in the state Connected: the global holds a socket that is open.\<close>

definition ws_open :: "state \<Rightarrow> bool" where
  "ws_open s = (case ws s of None \<Rightarrow> False | Some i \<Rightarrow> readyState s i = Some OPEN)"

section \<open>Concrete runs\<close>

text \<open>The page after its load and the opening of its first socket.\<close>

definition connected :: state where
  "connected = run [SocketOpen 0] (page_load False False)"

definition reads0 :: reads where
  "reads0 = \<lparr>rand1 = 0, rand2 = 0, now0 = 0, now1 = 0\<rparr>"

definition abc_data :: wheel_data where
  "abc_data = \<lparr>d_items = ItemsArray [''A'', ''B'', ''C''],
               d_actions = Some [(''A'', JObj [(''cmd'', JNum 1)])]\<rparr>"

definition labels_data :: "string list \<Rightarrow> wheel_data" where
  "labels_data xs = \<lparr>d_items = ItemsArray xs, d_actions = None\<rparr>"

definition trigger :: "wheel_data \<Rightarrow> input" where
  "trigger d = SocketMessage 0 (Some (TriggerAction ''spin_wheel'' (Some d))) reads0"

text \<open>The configuration mode is on; then a resize handle is pressed at (100, 100).\<close>

definition config_on :: state where
  "config_on = step KeyC connected"

definition resizing :: state where
  "resizing = step (HandleMouseDown 100 100) config_on"

text \<open>A configuration update for the wheel, at the centre, with the given scale.\<close>

definition config_push :: "real option \<Rightarrow> input" where
  "config_push sc =
     SocketMessage 0 (Some (ConfigUpdate (Some \<lparr>pos_wheel = Some \<lparr>p_x = 50, p_y = 50, p_scale = sc\<rparr>\<rparr>))) reads0"

text \<open>The page after a trigger is delivered to the connected, idle page.\<close>

definition spinning :: "wheel_data \<Rightarrow> state" where
  "spinning d = step (trigger d) connected"

definition busy_message :: string where
  "busy_message = ''Wheel is busy (spinning or showing result), ignoring new spin request''"

section \<open>Predicates on states\<close>

text \<open>The input ends the display of a result: it fires a timer whose callback clears
  \<^verbatim>\<open>isShowingResult\<close>.\<close>

fun ends_display :: "input \<Rightarrow> state \<Rightarrow> bool" where
  "ends_display (TimerFire i b) s =
     (case find (\<lambda>t. fst t = i) (timers s) of
        None \<Rightarrow> False
      | Some t \<Rightarrow> fst (snd t) = ShowResultClear)"
| "ends_display e s = False"

text \<open>A trigger with this data is accepted: the wheel is idle and the items are a list
  with at least one label.\<close>

definition accepts :: "wheel_data \<Rightarrow> state \<Rightarrow> bool" where
  "accepts d s = (\<not> isBusy (wheel s) \<and> Array_isArray (d_items d) \<and> items_of (d_items d) \<noteq> [])"

text \<open>The number of pending timers whose callback is in a set, and what one new timer adds
  to it.\<close>

definition timer_count :: "callback set \<Rightarrow> state \<Rightarrow> nat" where
  "timer_count C s = length (filter (\<lambda>t. fst (snd t) \<in> C) (timers s))"

definition added :: "callback set \<Rightarrow> callback \<Rightarrow> nat" where
  "added C cb = (if cb \<in> C then 1 else 0)"

definition reconnect_timers :: "state \<Rightarrow> (nat \<times> callback \<times> nat) list" where
  "reconnect_timers s = filter (\<lambda>t. fst (snd t) = Reconnect) (timers s)"

text \<open>Sockets that are not closed and pending reconnect timers: at most one in all.\<close>

definition conn_inv :: "state \<Rightarrow> bool" where
  "conn_inv s = (length (sockets s) + length (reconnect_timers s) \<le> 1)"

definition result_callbacks :: "callback set" where
  "result_callbacks = {ShowResultFade, ShowResultClear}"

text \<open>
  At most one timer of the result display is pending; while one is pending the wheel shows
  a result and does not spin; a frame is requested only while the wheel spins.
\<close>

definition session_inv :: "state \<Rightarrow> bool" where
  "session_inv s =
     (timer_count result_callbacks s \<le> 1
      \<and> (timer_count result_callbacks s = 1 \<longrightarrow> isShowingResult (wheel s) \<and> \<not> isSpinning (wheel s))
      \<and> (raf s \<noteq> None \<longrightarrow> isSpinning (wheel s)))"

text \<open>The progress that \<^verbatim>\<open>animate\<close> computes.\<close>

definition spin_progress :: "spin_closure \<Rightarrow> int \<Rightarrow> real" where
  "spin_progress cl now = min (real_of_int (now - startTime cl) / spinDuration) 1"

text \<open>The page after its load, when the constructor of the socket throws and when it does not.\<close>

definition load_failed :: state where
  "load_failed = run [] (page_load True False)"

definition load_ok :: state where
  "load_ok = run [] (page_load False False)"

section \<open>Remainders\<close>

lemmas prim_defs = console_log_def console_warn_def console_error_def setTimeout_def
  clearTimeout_def readyState_def

lemmas init_defs = page_load_def init_state_def init_wheel_def init_page_def run_def

lemma js_rem_nonneg:
  assumes "0 < b" "0 \<le> a"
  shows "0 \<le> js_rem a b \<and> js_rem a b < b"
proof -
  have t: "js_trunc (a / b) = \<lfloor>a / b\<rfloor>" using assms by (simp add: js_trunc_def)
  have "real_of_int \<lfloor>a / b\<rfloor> * b \<le> a" using assms(1) by (rule floor_divide_lower)
  moreover have "a < (real_of_int \<lfloor>a / b\<rfloor> + 1) * b" using assms(1) by (rule floor_divide_upper)
  ultimately show ?thesis
    by (simp add: js_rem_def t algebra_simps)
qed

lemma js_rem_neg:
  assumes "0 < b" "a < 0"
  shows "- b < js_rem a b \<and> js_rem a b \<le> 0"
proof -
  have q: "a / b < 0" using assms by (simp add: divide_neg_pos)
  have t: "js_trunc (a / b) = \<lceil>a / b\<rceil>" using q by (simp add: js_trunc_def)
  have "a \<le> real_of_int \<lceil>a / b\<rceil> * b" using assms(1) by (rule ceiling_divide_upper)
  moreover have "(real_of_int \<lceil>a / b\<rceil> - 1) * b < a" using assms(1) by (rule ceiling_divide_lower)
  ultimately show ?thesis
    by (simp add: js_rem_def t algebra_simps)
qed

lemma js_rem_small:
  assumes "0 < b" "0 \<le> a" "a < b" shows "js_rem a b = a"
proof -
  have "\<lfloor>a / b\<rfloor> = 0" using assms by (simp add: floor_eq_iff)
  then show ?thesis using assms by (simp add: js_rem_def js_trunc_def)
qed

lemma js_rem_small_neg:
  assumes "0 < b" "a < 0" "- b < a" shows "js_rem a b = a"
proof -
  have q: "a / b < 0" using assms by (simp add: divide_neg_pos)
  have "- 1 < a / b" using assms by (simp add: pos_less_divide_eq)
  then have "\<lceil>a / b\<rceil> = 0" using q by (simp add: ceiling_eq_iff)
  then show ?thesis using q by (simp add: js_rem_def js_trunc_def)
qed

lemma js_rem_idem:
  assumes "0 < b" shows "js_rem (js_rem a b) b = js_rem a b"
proof (cases "0 \<le> a")
  case True
  then show ?thesis using js_rem_nonneg [OF assms True] js_rem_small [OF assms] by simp
next
  case False
  then have neg: "a < 0" by simp
  show ?thesis
  proof (cases "js_rem a b = 0")
    case True
    then show ?thesis by (simp add: js_rem_def js_trunc_def)
  next
    case False
    then show ?thesis using js_rem_neg [OF assms neg] js_rem_small_neg [OF assms] by simp
  qed
qed

lemma js_rem_self: "b \<noteq> 0 \<Longrightarrow> js_rem b b = 0"
  by (simp add: js_rem_def js_trunc_def)

lemma js_rem_second_turn:
  assumes "0 < b" "b \<le> a" "a < 2 * b" shows "js_rem a b = a - b"
proof -
  have "1 \<le> a / b" using assms by (simp add: pos_le_divide_eq)
  moreover have "a / b < 2" using assms by (simp add: pos_divide_less_eq)
  ultimately have "\<lfloor>a / b\<rfloor> = 1" by (simp add: floor_eq_iff)
  moreover have "0 \<le> a / b" using assms by simp
  ultimately show ?thesis by (simp add: js_rem_def js_trunc_def)
qed

lemma real_mod_range:
  assumes "0 < b" shows "0 \<le> real_mod a b \<and> real_mod a b < b"
proof -
  have "real_of_int \<lfloor>a / b\<rfloor> * b \<le> a" using assms by (rule floor_divide_lower)
  moreover have "a < (real_of_int \<lfloor>a / b\<rfloor> + 1) * b" using assms by (rule floor_divide_upper)
  ultimately show ?thesis by (simp add: real_mod_def algebra_simps)
qed

lemma real_mod_small:
  assumes "0 < b" "0 \<le> a" "a < b" shows "real_mod a b = a"
proof -
  have "\<lfloor>a / b\<rfloor> = 0" using assms by (simp add: floor_eq_iff)
  then show ?thesis by (simp add: real_mod_def)
qed

lemma real_mod_self: "b \<noteq> 0 \<Longrightarrow> real_mod b b = 0"
  by (simp add: real_mod_def)

lemma js_rem_eq_real_mod:
  "0 \<le> a \<Longrightarrow> 0 < b \<Longrightarrow> js_rem a b = real_mod a b"
  by (simp add: js_rem_def real_mod_def js_trunc_def)

lemma js_rem_neg_real_mod:
  assumes "0 < b" "a < 0"
  shows "js_rem a b = (if real_mod a b = 0 then 0 else real_mod a b - b)"
proof -
  have q: "a / b < 0" using assms by (simp add: divide_neg_pos)
  have t: "js_trunc (a / b) = \<lceil>a / b\<rceil>" using q by (simp add: js_trunc_def)
  show ?thesis
  proof (cases "real_of_int \<lfloor>a / b\<rfloor> = a / b")
    case True
    then have c: "\<lceil>a / b\<rceil> = \<lfloor>a / b\<rfloor>" by (metis ceiling_of_int)
    have "b * real_of_int \<lfloor>a / b\<rfloor> = b * (a / b)" by (simp only: True)
    also have "\<dots> = a" using assms by simp
    finally have "b * real_of_int \<lfloor>a / b\<rfloor> = a" .
    then show ?thesis by (simp add: js_rem_def real_mod_def t c)
  next
    case False
    then have c: "\<lceil>a / b\<rceil> = \<lfloor>a / b\<rfloor> + 1" by (simp add: ceiling_altdef)
    have "b * real_of_int \<lfloor>a / b\<rfloor> \<noteq> a"
    proof
      assume h: "b * real_of_int \<lfloor>a / b\<rfloor> = a"
      have "b \<noteq> 0" using assms(1) by simp
      then have "real_of_int \<lfloor>a / b\<rfloor> = a / b"
        by (metis h nonzero_mult_div_cancel_left)
      then show False using False by blast
    qed
    then show ?thesis by (simp add: js_rem_def real_mod_def t c algebra_simps)
  qed
qed

lemma normalized_rotation_eq:
  assumes "0 < b"
  shows "js_rem (b - js_rem a b) b = real_mod (b - real_mod a b) b"
proof -
  have bn: "b \<noteq> 0" using assms by simp
  have rm: "0 \<le> real_mod a b \<and> real_mod a b < b" using assms by (rule real_mod_range)
  have spec: "real_mod (b - real_mod a b) b = (if real_mod a b = 0 then 0 else b - real_mod a b)"
    using rm real_mod_small [OF assms, of "b - real_mod a b"] real_mod_self [OF bn] by auto
  show ?thesis
  proof (cases "0 \<le> a")
    case True
    then have e: "js_rem a b = real_mod a b" using assms by (simp add: js_rem_eq_real_mod)
    have "js_rem (b - real_mod a b) b = (if real_mod a b = 0 then 0 else b - real_mod a b)"
      using rm js_rem_small [OF assms, of "b - real_mod a b"] js_rem_self [OF bn] by auto
    then show ?thesis by (simp add: e spec)
  next
    case False
    then have neg: "a < 0" by simp
    have e: "js_rem a b = (if real_mod a b = 0 then 0 else real_mod a b - b)"
      using assms neg by (rule js_rem_neg_real_mod)
    show ?thesis
    proof (cases "real_mod a b = 0")
      case True
      then show ?thesis by (simp add: e spec js_rem_self [OF bn] real_mod_self [OF bn])
    next
      case False
      have "js_rem (2 * b - real_mod a b) b = 2 * b - real_mod a b - b"
        using rm False by (intro js_rem_second_turn [OF assms]) auto
      then show ?thesis using False by (simp add: e spec)
    qed
  qed
qed

lemma normalized_rotation_range:
  assumes "0 < b"
  shows "0 \<le> js_rem (b - js_rem a b) b \<and> js_rem (b - js_rem a b) b < b"
  using real_mod_range [OF assms] by (simp add: normalized_rotation_eq [OF assms])

lemma winnerIndex_range:
  assumes "0 < n"
  shows "0 \<le> winnerIndex n rot \<and> winnerIndex n rot < int n"
proof -
  let ?N = "js_rem (2 * pi - js_rem rot (2 * pi)) (2 * pi)"
  have b: "0 < 2 * pi" by simp
  have r: "0 \<le> ?N \<and> ?N < 2 * pi" using b by (rule normalized_rotation_range)
  have q: "?N / ((2 * pi) / real n) = ?N * real n / (2 * pi)" by simp
  have lo: "0 \<le> ?N * real n / (2 * pi)" using r by simp
  have "?N * real n < 2 * pi * real n" using r assms by simp
  then have hi: "?N * real n / (2 * pi) < real n" by (simp add: pos_divide_less_eq mult.commute)
  have "0 \<le> \<lfloor>?N * real n / (2 * pi)\<rfloor>" using lo by simp
  moreover have "\<lfloor>?N * real n / (2 * pi)\<rfloor> < int n" using hi by (simp add: floor_less_iff)
  ultimately show ?thesis using assms by (simp add: winnerIndex_def Let_def q del: times_divide_eq_left times_divide_eq_right divide_divide_eq_left divide_divide_eq_right)
qed

lemma winnerIndex_spec:
  "0 < n \<Longrightarrow> winnerIndex n rot = spec_winner_index n rot"
  using normalized_rotation_eq [of "2 * pi" rot]
  by (simp add: winnerIndex_def spec_winner_index_def Let_def)

lemma winnerIndex_normalised:
  "winnerIndex n (js_rem rot (2 * pi)) = winnerIndex n rot"
  by (simp add: winnerIndex_def Let_def js_rem_idem)

lemma winnerIndex_zero:
  "js_rem rot (2 * pi) = 0 \<Longrightarrow> winnerIndex n rot = 0"
  by (simp add: winnerIndex_def Let_def js_rem_self)

section \<open>The transport's send\<close>

lemma connected_unfold:
  "connected = init_state\<lparr>ws := Some 0, sockets := [(0, OPEN)], next_socket := 1,
     sent := [(0, JSON_stringify RequestConfig)],
     console := [Log ''Yambot Overlay Initialized'', Log ''Connecting to WebSocket...'',
                 Log ''WebSocket connected'']\<rparr>"
  by (simp add: connected_def init_defs prim_defs connect_def onopen_def send_def Let_def)

text \<open>
  Claim C7. A message passed to \<open>send\<close> while the channel is not Connected is dropped:
  the only change of the state is the warning on the console, and nothing is queued.
  While the channel is Connected the message is serialised and transmitted on the socket.
\<close>

theorem send_drops_unless_open:
  "(ws_open s \<longrightarrow> (\<exists>i. ws s = Some i \<and> send m s = s\<lparr>sent := sent s @ [(i, JSON_stringify m)]\<rparr>))
   \<and> (\<not> ws_open s \<longrightarrow>
        send m s = s\<lparr>console := console s @ [Warn ''WebSocket not connected, cannot send message'']\<rparr>)"
  by (auto simp: ws_open_def send_def console_warn_def split: option.splits)

theorem send_drops_unless_open_witness:
  "ws_open connected
   \<and> send (WheelResult ''A'' None) connected
       = connected\<lparr>sent := sent connected @ [(0, JSON_stringify (WheelResult ''A'' None))]\<rparr>
   \<and> \<not> ws_open init_state
   \<and> send (WheelResult ''A'' None) init_state
       = init_state\<lparr>console := console init_state @ [Warn ''WebSocket not connected, cannot send message'']\<rparr>"
proof -
  have o: "ws_open connected"
    by (simp add: connected_unfold ws_open_def readyState_def init_state_def)
  have w: "ws connected = Some 0"
    by (simp add: connected_unfold init_state_def)
  have c: "\<not> ws_open init_state"
    by (simp add: ws_open_def init_state_def)
  show ?thesis
    using send_drops_unless_open [of connected "WheelResult ''A'' None"]
          send_drops_unless_open [of init_state "WheelResult ''A'' None"] o w c
    by auto
qed

section \<open>The resize gesture\<close>


lemma config_on_facts:
  "configMode config_on" "dataset_scale config_on = 1"
  by (simp_all add: config_on_def connected_unfold init_state_def init_page_def
      toggleConfigMode_def dataset_scale_def)

lemma resizing_facts:
  "resizeElement resizing" "isResizing resizing" "resizeStartScale resizing = 1"
  "resizeStartX resizing = 100" "resizeStartY resizing = 100"
  by (simp_all add: resizing_def startResize_def config_on_facts)


section \<open>Configuration updates\<close>

lemma connected_facts:
  "readyState connected 0 = Some OPEN" "ws connected = Some 0"
  "container_scale (page connected) = None" "\<not> isBusy (wheel connected)"
  by (simp_all add: connected_unfold init_state_def init_page_def init_wheel_def readyState_def isBusy_def)

text \<open>
  Claim C10. A configuration update whose scale is missing or is 0 is applied with the
  scale 1.0: the value 0 is not clamped to the lower bound 0.3.
\<close>

theorem falsy_scale_becomes_one:
  "p_scale w = None \<or> p_scale w = Some 0 \<Longrightarrow>
     container_scale (page (handleConfigUpdate (Some \<lparr>pos_wheel = Some w\<rparr>) s)) = Some 1
     \<and> container_transform (page (handleConfigUpdate (Some \<lparr>pos_wheel = Some w\<rparr>) s)) = Some (True, 1)"
  by (auto simp: handleConfigUpdate_def applyPositions_def)

theorem falsy_scale_becomes_one_witness:
  "(p_scale \<lparr>p_x = 50, p_y = 50, p_scale = Some 0\<rparr> = None
      \<or> p_scale \<lparr>p_x = 50, p_y = 50, p_scale = Some 0\<rparr> = Some 0)
   \<and> container_scale (page (handleConfigUpdate
         (Some \<lparr>pos_wheel = Some \<lparr>p_x = 50, p_y = 50, p_scale = Some 0\<rparr>\<rparr>) connected)) = Some 1
   \<and> container_transform (page (handleConfigUpdate
         (Some \<lparr>pos_wheel = Some \<lparr>p_x = 50, p_y = 50, p_scale = Some 0\<rparr>\<rparr>) connected)) = Some (True, 1)"
  using falsy_scale_becomes_one [of "\<lparr>p_x = 50, p_y = 50, p_scale = Some 0\<rparr>" connected]
  by simp

text \<open>
  Claim C2, as stated, fails: a configuration update with the scale 5 is applied with the
  scale 5, outside \<open>[0.3, 3.0]\<close>.
\<close>

theorem config_update_not_clamped:
  "\<not> scale_in_range (dataset_scale (step (config_push (Some 5)) connected))"
  by (simp add: config_push_def connected_facts onmessage_def handleConfigUpdate_def
      applyPositions_def console_log_def dataset_scale_def scale_in_range_def)

text \<open>
  Claim C2, amended. After a move of the resize gesture and after a reset the applied scale
  lies within \<open>[0.3, 3.0]\<close>. A configuration update applies the scale it carries as it
  is sent, and 1.0 when the scale is missing or 0; it does not clamp.
\<close>

theorem scale_after_mutation:
  "(resizeElement s \<and> isResizing s \<longrightarrow> scale_in_range (dataset_scale (resize x y s)))
   \<and> scale_in_range (dataset_scale (resetPositions s))
   \<and> dataset_scale (handleConfigUpdate (Some \<lparr>pos_wheel = Some w\<rparr>) s)
       = (case p_scale w of None \<Rightarrow> 1 | Some v \<Rightarrow> if v = 0 then 1 else v)"
  by (simp add: resize_def resetPositions_def handleConfigUpdate_def applyPositions_def defaults_def
      dataset_scale_def scale_in_range_def Let_def)

theorem scale_after_mutation_witness:
  "resizeElement resizing \<and> isResizing resizing
   \<and> scale_in_range (dataset_scale (resize 5000 0 resizing))
   \<and> scale_in_range (dataset_scale (resetPositions resizing))
   \<and> dataset_scale (handleConfigUpdate
         (Some \<lparr>pos_wheel = Some \<lparr>p_x = 50, p_y = 50, p_scale = Some 2\<rparr>\<rparr>) resizing) = 2"
  using scale_after_mutation [of resizing 5000 0 "\<lparr>p_x = 50, p_y = 50, p_scale = Some 2\<rparr>"]
  by (simp add: resizing_facts)

section \<open>What the methods of the wheel leave alone\<close>

lemmas wheel_defs = setItems_def isBusy_def reset_def showResult_def hide_def action_of_def
  afterSpin_def finish_steps_def winner_of_def animate_def spin_def spinAndShow_def

lemma reset_frame:
  "isSpinning (wheel (reset s)) = isSpinning (wheel s)"
  "items (wheel (reset s)) = items (wheel s)"
  "currentRotation (wheel (reset s)) = currentRotation (wheel s)"
  "\<not> isShowingResult (wheel (reset s))"
  "raf (reset s) = raf s" "sent (reset s) = sent s" "console (reset s) = console s"
  "sockets (reset s) = sockets s" "ws (reset s) = ws s"
  by (simp_all add: reset_def clearTimeout_def Let_def split: option.splits)

lemma send_frame:
  "wheel (send m s) = wheel s" "page (send m s) = page s" "timers (send m s) = timers s"
  "sockets (send m s) = sockets s" "ws (send m s) = ws s" "raf (send m s) = raf s"
  "next_timer (send m s) = next_timer s"
  by (simp_all add: send_def console_warn_def split: option.splits)

lemma showResult_frame:
  "isSpinning (wheel (showResult r s)) = isSpinning (wheel s)"
  "isShowingResult (wheel (showResult r s)) = isShowingResult (wheel s)"
  "items (wheel (showResult r s)) = items (wheel s)"
  "currentRotation (wheel (showResult r s)) = currentRotation (wheel s)"
  "container_scale (page (showResult r s)) = container_scale (page s)"
  "sockets (showResult r s) = sockets s" "ws (showResult r s) = ws s"
  "raf (showResult r s) = raf s" "sent (showResult r s) = sent s"
  "console (showResult r s) = console s"
  by (simp_all add: showResult_def setTimeout_def clearTimeout_def Let_def split: option.splits)

lemma hide_frame:
  "isSpinning (wheel (hide s)) = isSpinning (wheel s)"
  "isShowingResult (wheel (hide s)) = isShowingResult (wheel s)"
  "items (wheel (hide s)) = items (wheel s)"
  "currentRotation (wheel (hide s)) = currentRotation (wheel s)"
  "page (hide s) = page s"
  "sockets (hide s) = sockets s" "ws (hide s) = ws s"
  "raf (hide s) = raf s" "sent (hide s) = sent s"
  "console (hide s) = console s"
  by (simp_all add: hide_def setTimeout_def clearTimeout_def Let_def split: option.splits)

lemma afterSpin_frame:
  "isSpinning (wheel (afterSpin wd r s)) = isSpinning (wheel s)"
  "isShowingResult (wheel (afterSpin wd r s)) = isShowingResult (wheel s)"
  "items (wheel (afterSpin wd r s)) = items (wheel s)"
  "currentRotation (wheel (afterSpin wd r s)) = currentRotation (wheel s)"
  "container_scale (page (afterSpin wd r s)) = container_scale (page s)"
  "sockets (afterSpin wd r s) = sockets s" "ws (afterSpin wd r s) = ws s"
  "raf (afterSpin wd r s) = raf s"
  by (simp_all add: afterSpin_def send_frame hide_frame showResult_frame split: option.splits)

lemma sent_send:
  "ws_open s \<Longrightarrow> ws s = Some i \<Longrightarrow> sent (send m s) = sent s @ [(i, JSON_stringify m)]"
  by (simp add: send_def ws_open_def)

lemma ws_open_cong:
  "ws s' = ws s \<Longrightarrow> sockets s' = sockets s \<Longrightarrow> ws_open s' = ws_open s"
  by (simp add: ws_open_def readyState_def split: option.splits)

lemma sent_afterSpin:
  assumes "ws_open s" "ws s = Some i" "r \<noteq> []"
  shows "sent (afterSpin wd (Some r) s) = sent s @ [(i, JSON_stringify (WheelResult r (action_of wd r)))]"
proof -
  have o: "ws_open (hide (showResult r s))"
    using assms(1) ws_open_cong [of "hide (showResult r s)" s]
    by (simp add: hide_frame showResult_frame)
  have w: "ws (hide (showResult r s)) = Some i"
    using assms(2) by (simp add: hide_frame showResult_frame)
  show ?thesis
    using assms(3) by (simp add: afterSpin_def sent_send [OF o w] hide_frame showResult_frame)
qed

lemma finish_steps_frame:
  "ws (last (finish_steps s)) = ws s" "sockets (last (finish_steps s)) = sockets s"
  "sent (last (finish_steps s)) = sent s" "raf (last (finish_steps s)) = raf s"
  "timers (last (finish_steps s)) = timers s"
  "items (wheel (last (finish_steps s))) = items (wheel s)"
  "isShowingResult (wheel (last (finish_steps s)))" "\<not> isSpinning (wheel (last (finish_steps s)))"
  "page (last (finish_steps s)) = page s"
  by (simp_all add: finish_steps_def Let_def)

section \<open>The end of a spin\<close>

text \<open>
  The lemmas of this section are facts of the exact arithmetic of the model. The program
  evaluates the same expressions in IEEE doubles with \<^verbatim>\<open>Math.PI\<close>: the slice angle
  and the quotient are rounded before \<^verbatim>\<open>Math.floor\<close> is taken, so the index that the
  program computes can differ from the exact one when the pointer is at the border of two
  slices. Nothing here is a statement about the rounded computation.
\<close>

lemma js_rem_zero_iff:
  assumes "0 < b" shows "js_rem a b = 0 \<longleftrightarrow> real_mod a b = 0"
proof (cases "0 \<le> a")
  case True
  then show ?thesis using assms by (simp add: js_rem_eq_real_mod)
next
  case False
  then have "a < 0" by simp
  then show ?thesis
    using js_rem_neg_real_mod [OF assms, of a] real_mod_range [OF assms, of a] by auto
qed

lemma progress_done:
  "spinDuration \<le> real_of_int (now - startTime cl) \<Longrightarrow>
     min (real_of_int (now - startTime cl) / spinDuration) 1 = 1"
  by (simp add: spinDuration_def min_def)

lemma animate_done:
  assumes "spinDuration \<le> real_of_int (now - startTime cl)"
  shows "animate cl now s =
     (let s1 = s\<lparr>wheel := (wheel s)\<lparr>currentRotation := startRotation cl + totalRotation cl\<rparr>\<rparr>
      in afterSpin (wheelData cl) (winner_of (hd (finish_steps s1))) (last (finish_steps s1)))"
  using progress_done [OF assms] by (simp add: animate_def Let_def)

lemma item_at_in_range:
  "0 \<le> i \<Longrightarrow> i < int (length xs) \<Longrightarrow> item_at xs i = Some (xs ! nat i)"
  by (simp add: item_at_def)

lemma spin_completion:
  assumes "items (wheel s) \<noteq> []" and "spinDuration \<le> real_of_int (now - startTime cl)"
  shows "winnerIndex (length (items (wheel s)))
            (currentRotation (wheel (hd (finish_steps
               (s\<lparr>wheel := (wheel s)\<lparr>currentRotation := startRotation cl + totalRotation cl\<rparr>\<rparr>)))))
           = spec_winner_index (length (items (wheel s))) (startRotation cl + totalRotation cl)
         \<and> 0 \<le> spec_winner_index (length (items (wheel s))) (startRotation cl + totalRotation cl)
         \<and> spec_winner_index (length (items (wheel s))) (startRotation cl + totalRotation cl)
             < int (length (items (wheel s)))
         \<and> (real_mod (startRotation cl + totalRotation cl) (2 * pi) = 0 \<longrightarrow>
              spec_winner_index (length (items (wheel s))) (startRotation cl + totalRotation cl) = 0)
         \<and> animate cl now s =
             afterSpin (wheelData cl)
               (Some (items (wheel s) !
                  nat (spec_winner_index (length (items (wheel s))) (startRotation cl + totalRotation cl))))
               (last (finish_steps
                  (s\<lparr>wheel := (wheel s)\<lparr>currentRotation := startRotation cl + totalRotation cl\<rparr>\<rparr>)))"
proof -
  let ?n = "length (items (wheel s))"
  let ?rot = "startRotation cl + totalRotation cl"
  let ?s1 = "s\<lparr>wheel := (wheel s)\<lparr>currentRotation := ?rot\<rparr>\<rparr>"
  have n: "0 < ?n" using assms(1) by simp
  have cur: "currentRotation (wheel (hd (finish_steps ?s1))) = js_rem ?rot (2 * pi)"
    by (simp add: finish_steps_def Let_def)
  have its: "items (wheel (hd (finish_steps ?s1))) = items (wheel s)"
    by (simp add: finish_steps_def Let_def)
  have eq: "winnerIndex ?n (js_rem ?rot (2 * pi)) = spec_winner_index ?n ?rot"
    using winnerIndex_spec [OF n, of ?rot] by (simp add: winnerIndex_normalised)
  have rng: "0 \<le> spec_winner_index ?n ?rot \<and> spec_winner_index ?n ?rot < int ?n"
    using winnerIndex_range [OF n, of ?rot] winnerIndex_spec [OF n, of ?rot] by simp
  have zero: "real_mod ?rot (2 * pi) = 0 \<longrightarrow> spec_winner_index ?n ?rot = 0"
    using winnerIndex_zero [of ?rot ?n] winnerIndex_spec [OF n, of ?rot]
          js_rem_zero_iff [of "2 * pi" ?rot] by simp
  have win: "winner_of (hd (finish_steps ?s1)) = Some (items (wheel s) ! nat (spec_winner_index ?n ?rot))"
    using rng by (simp add: winner_of_def its cur eq item_at_in_range)
  have run: "animate cl now s =
      afterSpin (wheelData cl) (Some (items (wheel s) ! nat (spec_winner_index ?n ?rot)))
        (last (finish_steps ?s1))"
    using animate_done [OF assms(2), of s] by (simp add: Let_def win)
  show ?thesis using cur eq rng zero run by simp
qed

lemma spinning_unfold:
  assumes "xs \<noteq> []" "d_items d = ItemsArray xs"
  shows "spinning d = connected
     \<lparr>wheel := (wheel connected)\<lparr>items := xs, isSpinning := True\<rparr>,
      page := (page connected)\<lparr>container_hidden := False\<rparr>,
      raf := Some \<lparr>startTime = 0, startRotation = 0, totalRotation = 6 * pi, wheelData = d\<rparr>,
      console := console connected @ [Log ''Received event:'']\<rparr>"
proof -
  have "spinning d = spinAndShow reads0 d (setItems xs (console_log ''Received event:'' connected))"
    using assms by (simp add: spinning_def trigger_def connected_facts onmessage_def handleTriggerAction_def)
  then show ?thesis using assms(1)
    by (simp add: connected_unfold init_state_def init_wheel_def init_page_def prim_defs wheel_defs
        reads0_def spinDuration_def Let_def)
qed

lemma spinning_facts:
  assumes "xs \<noteq> []" "d_items d = ItemsArray xs"
  shows "isSpinning (wheel (spinning d))" "items (wheel (spinning d)) = xs"
    "readyState (spinning d) 0 = Some OPEN" "ws (spinning d) = Some 0"
    "raf (spinning d) = Some \<lparr>startTime = 0, startRotation = 0, totalRotation = 6 * pi, wheelData = d\<rparr>"
    "sent (spinning d) = sent connected" "timers (spinning d) = []"
    "currentRotation (wheel (spinning d)) = 0"
  using connected_facts
  by (simp_all add: spinning_unfold [OF assms] readyState_def connected_unfold init_state_def init_wheel_def)

lemma frame_done:
  assumes "raf s = Some cl" "spinDuration \<le> real_of_int (now - startTime cl)"
  shows "step (AnimationFrame now) s =
     (let s1 = s\<lparr>raf := None, wheel := (wheel s)\<lparr>currentRotation := startRotation cl + totalRotation cl\<rparr>\<rparr>
      in afterSpin (wheelData cl) (winner_of (hd (finish_steps s1))) (last (finish_steps s1)))"
proof -
  have "min (real_of_int (now - startTime cl) / spinDuration) 1 = 1"
    using assms(2) by (simp add: spinDuration_def min_def)
  then show ?thesis using assms(1) by (simp add: animate_def Let_def)
qed

lemma three_turns: "js_rem (6 * pi) (2 * pi) = 0"
  by (simp add: js_rem_def js_trunc_def)

lemma winnerIndex_three_turns: "winnerIndex n (js_rem (6 * pi) (2 * pi)) = 0"
  by (rule winnerIndex_zero) (simp add: three_turns js_rem_def js_trunc_def)

lemma completed_spin_reports_once:
  assumes "raf s = Some cl" and "items (wheel s) \<noteq> []"
    and "spinDuration \<le> real_of_int (now - startTime cl)"
    and "ws_open s" and "ws s = Some i"
    and "w = items (wheel s) ! nat (spec_winner_index (length (items (wheel s))) (startRotation cl + totalRotation cl))"
    and "w \<noteq> []"
  shows "sent (step (AnimationFrame now) s) = sent s @ [(i, JSON_stringify (WheelResult w (action_of (wheelData cl) w)))]"
    and "w \<in> set (items (wheel s))"
proof -
  let ?s0 = "s\<lparr>raf := None\<rparr>"
  let ?s1 = "?s0\<lparr>wheel := (wheel ?s0)\<lparr>currentRotation := startRotation cl + totalRotation cl\<rparr>\<rparr>"
  have n: "items (wheel ?s0) \<noteq> []" using assms(2) by simp
  note t = spin_completion [OF n assms(3)]
  have an: "animate cl now ?s0 = afterSpin (wheelData cl) (Some w) (last (finish_steps ?s1))"
    using t assms(6) by simp
  have o: "ws_open (last (finish_steps ?s1))"
    using assms(4) ws_open_cong [of "last (finish_steps ?s1)" s]
    by (simp add: finish_steps_frame)
  have wi: "ws (last (finish_steps ?s1)) = Some i"
    using assms(5) by (simp add: finish_steps_frame)
  have "step (AnimationFrame now) s = animate cl now ?s0" using assms(1) by simp
  then have st: "step (AnimationFrame now) s = afterSpin (wheelData cl) (Some w) (last (finish_steps ?s1))"
    by (simp only: an)
  have fs: "sent (last (finish_steps ?s1)) = sent s"
    by (simp add: finish_steps_frame)
  show "sent (step (AnimationFrame now) s) = sent s @ [(i, JSON_stringify (WheelResult w (action_of (wheelData cl) w)))]"
    by (simp only: st sent_afterSpin [OF o wi assms(7)] fs)
  have "0 \<le> spec_winner_index (length (items (wheel s))) (startRotation cl + totalRotation cl)"
    and "spec_winner_index (length (items (wheel s))) (startRotation cl + totalRotation cl) < int (length (items (wheel s)))"
    using t by simp_all
  then have "nat (spec_winner_index (length (items (wheel s))) (startRotation cl + totalRotation cl)) < length (items (wheel s))"
    by linarith
  then show "w \<in> set (items (wheel s))" using assms(6) by simp
qed

section \<open>A trigger while the wheel is busy\<close>

lemma busy_trigger_effect:
  assumes "isBusy (wheel s)" "readyState s i = Some OPEN"
  shows "step (SocketMessage i (Some (TriggerAction ''spin_wheel'' (Some d))) rd) s =
     (if items_truthy (d_items d) \<and> Array_isArray (d_items d)
      then s\<lparr>wheel := (wheel s)\<lparr>items := items_of (d_items d)\<rparr>,
             console := console s @ [Log ''Received event:'', Warn busy_message]\<rparr>
      else s\<lparr>console := console s @ [Log ''Received event:'']\<rparr>)"
  using assms
  by (simp add: onmessage_def handleTriggerAction_def spinAndShow_def setItems_def isBusy_def
      console_log_def console_warn_def busy_message_def Let_def)

text \<open>
  Claim C1 asks that a trigger that arrives while the wheel is busy leaves the item set
  as it is. The dispatcher calls \<open>setItems\<close> before \<open>spinAndShow\<close> tests
  \<open>isBusy\<close>: while the wheel spins over A, B, C, a trigger with the item X is refused,
  and the item set is X all the same.
\<close>

theorem busy_trigger_replaces_items:
  "isBusy (wheel (spinning abc_data))
   \<and> items (wheel (spinning abc_data)) = [''A'', ''B'', ''C'']
   \<and> items (wheel (step (trigger (labels_data [''X''])) (spinning abc_data))) = [''X'']"
proof -
  have a: "d_items abc_data = ItemsArray [''A'', ''B'', ''C'']" by (simp add: abc_data_def)
  have b: "isBusy (wheel (spinning abc_data))"
    using spinning_facts(1) [OF _ a] by (simp add: isBusy_def)
  have o: "readyState (spinning abc_data) 0 = Some OPEN"
    using spinning_facts(3) [OF _ a] by simp
  have i: "items (wheel (spinning abc_data)) = [''A'', ''B'', ''C'']"
    using spinning_facts(2) [OF _ a] by simp
  show ?thesis
    using busy_trigger_effect [OF b o, of "labels_data [''X'']" reads0] b i
    by (simp add: trigger_def labels_data_def)
qed

section \<open>A winner that is the empty label\<close>

text \<open>
  Claim C4 asks for one result message for every accepted trigger with a non-empty item
  list. A trigger whose only item is the empty label is accepted; when its spin completes
  no frame is transmitted on the open socket, no timer is pending and the wheel stays in
  the phase ShowingResult.
\<close>

theorem empty_label_never_reported:
  "isSpinning (wheel (spinning (labels_data [[]])))
   \<and> sent (step (AnimationFrame 4000) (spinning (labels_data [[]]))) = sent connected
   \<and> isShowingResult (wheel (step (AnimationFrame 4000) (spinning (labels_data [[]]))))
   \<and> timers (step (AnimationFrame 4000) (spinning (labels_data [[]]))) = []
   \<and> raf (step (AnimationFrame 4000) (spinning (labels_data [[]]))) = None"
proof -
  let ?d = "labels_data [[]]"
  have a: "d_items ?d = ItemsArray [[]]" by (simp add: labels_data_def)
  note f = spinning_facts [OF _ a, simplified]
  have "step (AnimationFrame 4000) (spinning ?d) =
     (let s1 = (spinning ?d)\<lparr>raf := None, wheel := (wheel (spinning ?d))\<lparr>currentRotation := 0 + 6 * pi\<rparr>\<rparr>
      in afterSpin ?d (winner_of (hd (finish_steps s1))) (last (finish_steps s1)))"
    using frame_done [OF f(5), of 4000] by (simp add: spinDuration_def)
  then show ?thesis using f
    by (simp add: Let_def finish_steps_def winner_of_def winnerIndex_three_turns item_at_def afterSpin_def)
qed

section \<open>A trigger with no item\<close>

text \<open>
  Claim C9. A trigger whose item list is empty passes the list check of the dispatcher and
  replaces the item set; no spin starts (\<open>isSpinning\<close> and the pending frame are as
  before), nothing is transmitted, and a wheel that was idle stays idle.
\<close>

theorem empty_items_no_spin:
  assumes "d_items d = ItemsArray []" and "readyState s i = Some OPEN"
  shows "step (SocketMessage i (Some (TriggerAction ''spin_wheel'' (Some d))) rd) s =
           (if isBusy (wheel s)
            then s\<lparr>wheel := (wheel s)\<lparr>items := []\<rparr>,
                   console := console s @ [Log ''Received event:'', Warn busy_message]\<rparr>
            else reset (s\<lparr>wheel := (wheel s)\<lparr>items := []\<rparr>,
                          console := console s @ [Log ''Received event:'']\<rparr>))
         \<and> items (wheel (step (SocketMessage i (Some (TriggerAction ''spin_wheel'' (Some d))) rd) s)) = []
         \<and> isSpinning (wheel (step (SocketMessage i (Some (TriggerAction ''spin_wheel'' (Some d))) rd) s))
             = isSpinning (wheel s)
         \<and> raf (step (SocketMessage i (Some (TriggerAction ''spin_wheel'' (Some d))) rd) s) = raf s
         \<and> sent (step (SocketMessage i (Some (TriggerAction ''spin_wheel'' (Some d))) rd) s) = sent s
         \<and> (isBusy (wheel (step (SocketMessage i (Some (TriggerAction ''spin_wheel'' (Some d))) rd) s))
              \<longrightarrow> isBusy (wheel s))"
proof -
  let ?e = "SocketMessage i (Some (TriggerAction ''spin_wheel'' (Some d))) rd"
  let ?s0 = "s\<lparr>wheel := (wheel s)\<lparr>items := []\<rparr>, console := console s @ [Log ''Received event:'']\<rparr>"
  have eq: "step ?e s =
      (if isBusy (wheel s)
       then s\<lparr>wheel := (wheel s)\<lparr>items := []\<rparr>,
              console := console s @ [Log ''Received event:'', Warn busy_message]\<rparr>
       else reset ?s0)"
  proof (cases "isBusy (wheel s)")
    case True
    then show ?thesis using busy_trigger_effect [OF True assms(2), of d rd] assms(1) by simp
  next
    case False
    have s0: "setItems [] (console_log ''Received event:'' s) = ?s0"
      by (cases s) (simp add: setItems_def console_log_def)
    have "step ?e s = spinAndShow rd d (setItems [] (console_log ''Received event:'' s))"
      using assms by (simp add: onmessage_def handleTriggerAction_def Let_def)
    also have "\<dots> = spin rd d (reset ?s0)"
      using False by (simp add: s0 spinAndShow_def isBusy_def)
    also have "\<dots> = reset ?s0"
      by (simp add: spin_def afterSpin_def reset_frame)
    finally show ?thesis using False by simp
  qed
  show ?thesis
    unfolding eq by (simp add: reset_frame isBusy_def)
qed

theorem empty_items_no_spin_witness:
  "d_items (labels_data []) = ItemsArray [] \<and> readyState connected 0 = Some OPEN
   \<and> items (wheel (step (SocketMessage 0 (Some (TriggerAction ''spin_wheel'' (Some (labels_data [])))) reads0) connected)) = []
   \<and> \<not> isSpinning (wheel (step (SocketMessage 0 (Some (TriggerAction ''spin_wheel'' (Some (labels_data [])))) reads0) connected))
   \<and> sent (step (SocketMessage 0 (Some (TriggerAction ''spin_wheel'' (Some (labels_data [])))) reads0) connected) = sent connected
   \<and> \<not> isBusy (wheel (step (SocketMessage 0 (Some (TriggerAction ''spin_wheel'' (Some (labels_data [])))) reads0) connected))"
proof -
  have a: "d_items (labels_data []) = ItemsArray []" by (simp add: labels_data_def)
  have r: "\<not> isSpinning (wheel connected)"
    by (simp add: connected_unfold init_state_def init_wheel_def)
  note t = empty_items_no_spin [OF a connected_facts(1), of reads0]
  show ?thesis
    using t a r connected_facts(1) connected_facts(4) by blast
qed

section \<open>The wheel stays busy\<close>

lemma busy_flags:
  "isSpinning (wheel s') = isSpinning (wheel s) \<Longrightarrow>
   isShowingResult (wheel s') = isShowingResult (wheel s) \<Longrightarrow> isBusy (wheel s') = isBusy (wheel s)"
  by (simp add: isBusy_def)

lemma busy_animate: "isBusy (wheel s) \<Longrightarrow> isBusy (wheel (animate cl now s))"
  by (simp add: animate_def Let_def isBusy_def afterSpin_frame finish_steps_frame)

lemma busy_after_spin:
  assumes "items (wheel s) \<noteq> []" "\<not> isSpinning (wheel s)"
  shows "isBusy (wheel (spin rd d s))"
proof -
  let ?s2 = "s\<lparr>wheel := (wheel s)\<lparr>isSpinning := True\<rparr>,
               page := (page s)\<lparr>container_hidden := False\<rparr>\<rparr>"
  have b: "isBusy (wheel ?s2)" by (simp add: isBusy_def)
  have "\<exists>cl. spin rd d s = animate cl (now1 rd) ?s2"
    using assms by (auto simp: spin_def Let_def)
  then show ?thesis using busy_animate [OF b] by auto
qed

lemma busy_spinAndShow:
  assumes "isBusy (wheel s) \<or> items (wheel s) \<noteq> []"
  shows "isBusy (wheel (spinAndShow rd d s))"
proof (cases "isBusy (wheel s)")
  case True
  then show ?thesis by (simp add: spinAndShow_def console_warn_def)
next
  case False
  then have "items (wheel (reset s)) \<noteq> []" "\<not> isSpinning (wheel (reset s))"
    using assms by (simp_all add: reset_frame isBusy_def)
  then have "isBusy (wheel (spin rd d (reset s)))" by (rule busy_after_spin)
  then show ?thesis using False by (simp add: spinAndShow_def)
qed

lemma busy_handleTriggerAction:
  assumes "isBusy (wheel s)" "handleTriggerAction rd a d s = Inr s'"
  shows "isBusy (wheel s')"
proof (cases "a = ''spin_wheel''")
  case False
  then show ?thesis using assms by (auto simp: handleTriggerAction_def console_warn_def)
next
  case True
  then obtain x where x: "d = Some x" using assms(2)
    by (cases d) (auto simp: handleTriggerAction_def)
  show ?thesis
  proof (cases "items_truthy (d_items x) \<and> Array_isArray (d_items x)")
    case False
    then show ?thesis using assms True x by (auto simp: handleTriggerAction_def)
  next
    case ok: True
    have b: "isBusy (wheel (setItems (items_of (d_items x)) s))"
      using assms(1) by (simp add: setItems_def isBusy_def)
    have "s' = spinAndShow rd x (setItems (items_of (d_items x)) s)"
      using assms(2) True x ok by (simp add: handleTriggerAction_def)
    then show ?thesis using busy_spinAndShow [of "setItems (items_of (d_items x)) s" rd x] b by simp
  qed
qed

lemma applyPositions_wheel: "wheel (applyPositions ps s) = wheel s"
  by (simp add: applyPositions_def Let_def split: option.splits)

lemma busy_handleEvent:
  "isBusy (wheel s) \<Longrightarrow> handleEvent rd e s = Inr s' \<Longrightarrow> isBusy (wheel s')"
  by (cases e)
     (auto simp: handleConfigUpdate_def applyPositions_wheel console_warn_def
       dest: busy_handleTriggerAction split: option.splits)

lemma busy_onmessage: "isBusy (wheel s) \<Longrightarrow> isBusy (wheel (onmessage rd ev s))"
  by (auto simp: onmessage_def console_error_def console_log_def Let_def
      split: option.splits sum.splits dest!: busy_handleEvent [rotated])

lemma connect_wheel: "wheel (connect b s) = wheel s"
  by (simp add: connect_def console_log_def console_error_def setTimeout_def Let_def)

lemma busy_run_callback:
  "isBusy (wheel s) \<Longrightarrow> cb \<noteq> ShowResultClear \<Longrightarrow> isBusy (wheel (run_callback cb b s))"
  by (cases cb) (simp_all add: setTimeout_def connect_wheel console_log_def)

lemma busy_step:
  assumes "isBusy (wheel s)" "\<not> ends_display e s"
  shows "isBusy (wheel (step e s))"
proof (cases e)
  case (SocketOpen i)
  then show ?thesis using assms(1)
    by (simp add: onopen_def console_log_def clearTimeout_def send_frame Let_def split: option.splits)
next
  case (SocketMessage i ev rd)
  then show ?thesis using assms(1) by (simp add: busy_onmessage)
next
  case (SocketError i)
  then show ?thesis using assms(1) by (simp add: onerror_def console_error_def)
next
  case (SocketClose i)
  then show ?thesis using assms(1) by (simp add: onclose_def console_log_def setTimeout_def Let_def)
next
  case (TimerFire i b)
  then show ?thesis using assms
    by (auto simp: clearTimeout_def split: option.splits intro!: busy_run_callback)
next
  case (AnimationFrame now)
  then show ?thesis using assms(1) by (auto split: option.splits intro!: busy_animate)
next
  case KeyC
  then show ?thesis using assms(1) by (simp add: toggleConfigMode_def)
next
  case (HandleMouseDown x y)
  then show ?thesis using assms(1) by (simp add: startResize_def)
next
  case (MouseMove x y)
  then show ?thesis using assms(1) by (simp add: resize_def Let_def)
next
  case (MouseUp x y)
  then show ?thesis using assms(1) by (simp add: stopResize_def send_frame Let_def)
next
  case ResetClick
  then show ?thesis using assms(1) by (simp add: resetPositions_def applyPositions_wheel send_frame)
qed

lemma busy_finish_steps:
  "isSpinning (wheel s) \<Longrightarrow> s' \<in> set (finish_steps s) \<Longrightarrow> isBusy (wheel s')"
  by (auto simp: finish_steps_def Let_def isBusy_def)

lemma busy_accept:
  assumes "accepts d s" "readyState s i = Some OPEN"
  shows "isBusy (wheel (step (SocketMessage i (Some (TriggerAction ''spin_wheel'' (Some d))) rd) s))"
proof -
  obtain xs where xs: "d_items d = ItemsArray xs" "xs \<noteq> []"
    using assms(1) by (cases "d_items d") (auto simp: accepts_def)
  have "step (SocketMessage i (Some (TriggerAction ''spin_wheel'' (Some d))) rd) s
        = spinAndShow rd d (setItems xs (console_log ''Received event:'' s))"
    using assms(2) xs by (simp add: onmessage_def handleTriggerAction_def Let_def)
  then show ?thesis using xs(2) by (simp add: busy_spinAndShow setItems_def)
qed

section \<open>Counting timers\<close>

lemma length_filter_filter:
  "length (filter P (filter Q xs)) \<le> length (filter P xs)"
  by (induction xs) auto

lemma tc_clearTimeout: "timer_count C (clearTimeout i s) \<le> timer_count C s"
  unfolding timer_count_def clearTimeout_def
  by (simp del: filter_filter add: length_filter_filter)

lemma tc_setTimeout: "timer_count C (snd (setTimeout cb d s)) = timer_count C s + added C cb"
  by (simp add: timer_count_def setTimeout_def added_def)

lemma tc_fields [simp]:
  "timer_count C (s\<lparr>wheel := w\<rparr>) = timer_count C s"
  "timer_count C (s\<lparr>page := p\<rparr>) = timer_count C s"
  "timer_count C (s\<lparr>raf := r\<rparr>) = timer_count C s"
  "timer_count C (s\<lparr>sent := f\<rparr>) = timer_count C s"
  "timer_count C (s\<lparr>console := c\<rparr>) = timer_count C s"
  "timer_count C (s\<lparr>ws := x\<rparr>) = timer_count C s"
  "timer_count C (s\<lparr>sockets := so\<rparr>) = timer_count C s"
  "timer_count C (s\<lparr>next_socket := n\<rparr>) = timer_count C s"
  "timer_count C (s\<lparr>reconnectTimeout := rt\<rparr>) = timer_count C s"
  "timer_count C (s\<lparr>configMode := cm\<rparr>) = timer_count C s"
  by (simp_all add: timer_count_def)

lemma tc_send: "timer_count C (send m s) = timer_count C s"
  by (simp add: timer_count_def send_frame)

lemma tc_clear_option:
  "timer_count C (case x of None \<Rightarrow> s | Some i \<Rightarrow> (let c = clearTimeout i s in c\<lparr>wheel := f c\<rparr>))
     \<le> timer_count C s"
  by (cases x) (simp_all add: Let_def tc_clearTimeout)

lemma tc_reset: "timer_count C (reset s) \<le> timer_count C s"
proof -
  let ?s1 = "case hideTimeout (wheel s) of None \<Rightarrow> s
             | Some i \<Rightarrow> (let c = clearTimeout i s in c\<lparr>wheel := (wheel c)\<lparr>hideTimeout := None\<rparr>\<rparr>)"
  let ?s2 = "case resultTimeout (wheel ?s1) of None \<Rightarrow> ?s1
             | Some i \<Rightarrow> (let c = clearTimeout i ?s1 in c\<lparr>wheel := (wheel c)\<lparr>resultTimeout := None\<rparr>\<rparr>)"
  have a: "timer_count C ?s1 \<le> timer_count C s"
    by (rule tc_clear_option)
  have b: "timer_count C ?s2 \<le> timer_count C ?s1"
    by (rule tc_clear_option)
  have "timer_count C (reset s) = timer_count C ?s2"
    by (simp add: reset_def Let_def)
  then show ?thesis using a b by linarith
qed

lemma tc_showResult: "timer_count C (showResult r s) \<le> timer_count C s + added C ShowResultFade"
proof -
  let ?s1 = "s\<lparr>page := (page s)\<lparr>result_text := r, result_hidden := False\<rparr>\<rparr>"
  let ?s2 = "case resultTimeout (wheel ?s1) of None \<Rightarrow> ?s1 | Some i \<Rightarrow> clearTimeout i ?s1"
  have a: "timer_count C ?s2 \<le> timer_count C s"
    using tc_clearTimeout [of C _ ?s1] by (simp split: option.splits)
  have "timer_count C (showResult r s) = timer_count C (snd (setTimeout ShowResultFade 3000 ?s2))"
    by (simp add: showResult_def Let_def split: prod.splits)
  then show ?thesis using a by (simp add: tc_setTimeout)
qed

lemma tc_hide: "timer_count C (hide s) \<le> timer_count C s + added C HideContainer"
proof -
  let ?s1 = "case hideTimeout (wheel s) of None \<Rightarrow> s | Some i \<Rightarrow> clearTimeout i s"
  have a: "timer_count C ?s1 \<le> timer_count C s"
    using tc_clearTimeout [of C _ s] by (simp split: option.splits)
  have "timer_count C (hide s) = timer_count C (snd (setTimeout HideContainer 4000 ?s1))"
    by (simp add: hide_def Let_def split: prod.splits)
  then show ?thesis using a by (simp add: tc_setTimeout)
qed

lemma tc_afterSpin:
  "timer_count C (afterSpin wd r s) \<le> timer_count C s + added C ShowResultFade + added C HideContainer"
proof (cases "\<exists>x. r = Some x \<and> x \<noteq> []")
  case False
  then show ?thesis by (cases r) (auto simp: afterSpin_def)
next
  case True
  then obtain x where x: "r = Some x" "x \<noteq> []" by auto
  have "timer_count C (afterSpin wd r s) = timer_count C (hide (showResult x s))"
    using x by (simp add: afterSpin_def tc_send)
  also have "\<dots> \<le> timer_count C (showResult x s) + added C HideContainer" by (rule tc_hide)
  finally show ?thesis using tc_showResult [of C x s] by linarith
qed

lemma tc_finish_steps: "timer_count C (last (finish_steps s)) = timer_count C s"
  by (simp add: timer_count_def finish_steps_frame)

lemma tc_animate:
  "timer_count C (animate cl now s) \<le> timer_count C s + added C ShowResultFade + added C HideContainer"
proof -
  let ?s1 = "s\<lparr>wheel := (wheel s)\<lparr>currentRotation :=
     startRotation cl + totalRotation cl * (1 - (1 - min (real_of_int (now - startTime cl) / spinDuration) 1) ^ 3)\<rparr>\<rparr>"
  show ?thesis
  proof (cases "min (real_of_int (now - startTime cl) / spinDuration) 1 < 1")
    case True
    then have "animate cl now s = ?s1\<lparr>raf := Some cl\<rparr>" by (simp add: animate_def Let_def)
    then show ?thesis by simp
  next
    case False
    then have "animate cl now s = afterSpin (wheelData cl) (winner_of (hd (finish_steps ?s1))) (last (finish_steps ?s1))"
      by (simp add: animate_def Let_def)
    then show ?thesis
      using tc_afterSpin [of C "wheelData cl" "winner_of (hd (finish_steps ?s1))" "last (finish_steps ?s1)"]
      by (simp add: tc_finish_steps)
  qed
qed

lemma tc_spin:
  "timer_count C (spin rd d s) \<le> timer_count C s + added C ShowResultFade + added C HideContainer"
proof (cases "isSpinning (wheel s) \<or> length (items (wheel s)) = 0")
  case True
  then show ?thesis by (simp add: spin_def afterSpin_def)
next
  case False
  let ?s2 = "s\<lparr>wheel := (wheel s)\<lparr>isSpinning := True\<rparr>,
               page := (page s)\<lparr>container_hidden := False\<rparr>\<rparr>"
  have "\<exists>cl. spin rd d s = animate cl (now1 rd) ?s2"
    using False by (auto simp: spin_def Let_def)
  then obtain cl where "spin rd d s = animate cl (now1 rd) ?s2" by auto
  then show ?thesis using tc_animate [of C cl "now1 rd" ?s2] by simp
qed

lemma tc_spinAndShow:
  "timer_count C (spinAndShow rd d s) \<le> timer_count C s + added C ShowResultFade + added C HideContainer"
proof (cases "isBusy (wheel s)")
  case True
  then show ?thesis by (simp add: spinAndShow_def console_warn_def)
next
  case False
  then have "timer_count C (spinAndShow rd d s) = timer_count C (spin rd d (reset s))"
    by (simp add: spinAndShow_def)
  then show ?thesis using tc_spin [of C rd d "reset s"] tc_reset [of C s] by linarith
qed

lemma tc_onmessage:
  "timer_count C (onmessage rd ev s) \<le> timer_count C s + added C ShowResultFade + added C HideContainer"
proof -
  have t: "timer_count C s' \<le> timer_count C s0 + added C ShowResultFade + added C HideContainer"
    if "handleEvent rd e s0 = Inr s'" for e s0 s'
  proof (cases e)
    case (TriggerAction a d)
    show ?thesis
    proof (cases "a = ''spin_wheel'' \<and> (\<exists>x. d = Some x \<and> items_truthy (d_items x) \<and> Array_isArray (d_items x))")
      case True
      then obtain x where "d = Some x" "items_truthy (d_items x) \<and> Array_isArray (d_items x)" by auto
      then have "s' = spinAndShow rd x (setItems (items_of (d_items x)) s0)"
        using that TriggerAction True by (simp add: handleTriggerAction_def)
      then show ?thesis
        using tc_spinAndShow [of C rd x "setItems (items_of (d_items x)) s0"]
        by (simp add: setItems_def)
    next
      case False
      then show ?thesis using that TriggerAction
        by (cases d) (auto simp: handleTriggerAction_def console_warn_def split: if_splits)
    qed
  next
    case (ConfigUpdate ps)
    then show ?thesis using that
      by (auto simp: handleConfigUpdate_def applyPositions_def Let_def split: option.splits)
  next
    case Ping
    then show ?thesis using that by auto
  next
    case (UnknownType t)
    then show ?thesis using that by (auto simp: console_warn_def)
  qed
  show ?thesis
  proof (cases ev)
    case None
    then show ?thesis by (simp add: onmessage_def console_error_def)
  next
    case (Some e)
    show ?thesis
    proof (cases "handleEvent rd e (console_log ''Received event:'' s)")
      case (Inl x)
      then show ?thesis using Some by (simp add: onmessage_def Let_def console_error_def console_log_def)
    next
      case (Inr s')
      then show ?thesis using Some t [OF Inr] by (simp add: onmessage_def Let_def console_log_def)
    qed
  qed
qed

section \<open>Reconnection\<close>

lemma reconnect_count: "length (reconnect_timers s) = timer_count {Reconnect} s"
  by (simp add: reconnect_timers_def timer_count_def)

lemma added_other [simp]:
  "added {Reconnect} ShowResultFade = 0" "added {Reconnect} HideContainer = 0"
  "added {Reconnect} ShowResultClear = 0" "added {Reconnect} Reconnect = 1"
  by (simp_all add: added_def)

lemma animate_sockets: "sockets (animate cl now s) = sockets s"
  by (simp add: animate_def Let_def afterSpin_frame finish_steps_frame)

lemma spin_sockets: "sockets (spin rd d s) = sockets s"
  by (simp add: spin_def Let_def animate_sockets afterSpin_frame)

lemma spinAndShow_sockets: "sockets (spinAndShow rd d s) = sockets s"
  by (simp add: spinAndShow_def spin_sockets reset_frame console_warn_def)

lemma handleEvent_sockets: "handleEvent rd e s = Inr s' \<Longrightarrow> sockets s' = sockets s"
  by (cases e)
     (auto simp: handleTriggerAction_def handleConfigUpdate_def applyPositions_def Let_def
        spinAndShow_sockets setItems_def console_warn_def split: if_splits option.splits)

lemma onmessage_sockets: "sockets (onmessage rd ev s) = sockets s"
  by (auto simp: onmessage_def Let_def console_error_def console_log_def
      split: option.splits sum.splits dest: handleEvent_sockets)

lemma fired_count:
  "find (\<lambda>t. fst t = i) ts = Some t \<Longrightarrow> P t \<Longrightarrow>
     length (filter P (filter (\<lambda>t. fst t \<noteq> i) ts)) < length (filter P ts)"
proof (induction ts)
  case Nil
  then show ?case by simp
next
  case (Cons a ts)
  show ?case
  proof (cases "fst a = i")
    case True
    then have "a = t" using Cons.prems(1) by simp
    then have "length (filter P (filter (\<lambda>t. fst t \<noteq> i) (a # ts))) \<le> length (filter P ts)"
      using True by (simp add: length_filter_filter del: filter_filter)
    then show ?thesis using \<open>a = t\<close> Cons.prems(2) by simp
  next
    case False
    then show ?thesis using Cons by simp
  qed
qed

lemma closed_count:
  "map_of socks i \<noteq> None \<Longrightarrow> length (filter (\<lambda>p. fst p \<noteq> i) socks) < length socks"
proof (induction socks)
  case Nil
  then show ?case by simp
next
  case (Cons a socks)
  show ?case
  proof (cases "fst a = i")
    case True
    then show ?thesis by (simp add: less_Suc_eq_le)
  next
    case False
    then have "map_of socks i \<noteq> None" using Cons.prems by (cases a) auto
    then show ?thesis using Cons.IH False by simp
  qed
qed

lemma run_callback_conn:
  assumes "cb \<noteq> Reconnect"
  shows "sockets (run_callback cb b s) = sockets s"
    and "timer_count {Reconnect} (run_callback cb b s) = timer_count {Reconnect} s"
  using assms by (cases cb; simp add: timer_count_def setTimeout_def)+

lemma connect_conn:
  "length (sockets (connect b s)) + timer_count {Reconnect} (connect b s)
     = Suc (length (sockets s) + timer_count {Reconnect} s)"
  by (simp add: connect_def Let_def timer_count_def setTimeout_def console_log_def console_error_def
      split: prod.splits)

lemma conn_step:
  assumes "conn_inv s"
  shows "conn_inv (step e s)"
proof -
  have k: "length (sockets s) + timer_count {Reconnect} s \<le> 1"
    using assms by (simp add: conn_inv_def reconnect_count)
  have goal: "length (sockets (step e s)) + timer_count {Reconnect} (step e s) \<le> 1"
  proof (cases e)
    case (SocketOpen i)
    let ?s0 = "s\<lparr>sockets := map (\<lambda>(j, r). if j = i then (j, OPEN) else (j, r)) (sockets s)\<rparr>"
    have "sockets (onopen ?s0) = sockets ?s0"
      by (simp add: onopen_def Let_def send_frame console_log_def clearTimeout_def split: option.splits)
    moreover have "timer_count {Reconnect} (onopen ?s0) \<le> timer_count {Reconnect} s"
      using tc_clearTimeout [of "{Reconnect}" _ "console_log ''WebSocket connected'' ?s0"]
      by (simp add: onopen_def Let_def tc_send console_log_def split: option.splits)
    ultimately show ?thesis using k SocketOpen by simp
  next
    case (SocketMessage i ev rd)
    then show ?thesis using k tc_onmessage [of "{Reconnect}" rd ev s]
      by (simp add: onmessage_sockets)
  next
    case (SocketError i)
    then show ?thesis using k by (simp add: onerror_def console_error_def)
  next
    case (SocketClose i)
    show ?thesis
    proof (cases "readyState s i = None")
      case True
      then show ?thesis using k SocketClose by simp
    next
      case False
      then have lt: "length (filter (\<lambda>p. fst p \<noteq> i) (sockets s)) < length (sockets s)"
        by (simp add: readyState_def closed_count)
      have so: "sockets (step e s) = filter (\<lambda>p. fst p \<noteq> i) (sockets s)"
        using False SocketClose
        by (simp add: onclose_def Let_def setTimeout_def console_log_def)
      have tc: "timer_count {Reconnect} (step e s) = timer_count {Reconnect} s + 1"
        using False SocketClose
        by (simp add: onclose_def Let_def timer_count_def setTimeout_def console_log_def)
      show ?thesis unfolding so tc using k lt by linarith
    qed
  next
    case (TimerFire i b)
    show ?thesis
    proof (cases "find (\<lambda>t. fst t = i) (timers s)")
      case None
      then show ?thesis using k TimerFire by simp
    next
      case (Some t)
      show ?thesis
      proof (cases "fst (snd t) = Reconnect")
        case True
        have lt: "timer_count {Reconnect} (clearTimeout i s) < timer_count {Reconnect} s"
          using fired_count [OF Some, of "\<lambda>t. fst (snd t) \<in> {Reconnect}"] True
          by (simp add: timer_count_def clearTimeout_def del: filter_filter)
        have so: "sockets (clearTimeout i s) = sockets s" by (simp add: clearTimeout_def)
        have "length (sockets s) = 0 \<and> timer_count {Reconnect} (clearTimeout i s) = 0"
          using k lt by linarith
        then have "length (sockets (clearTimeout i s)) + timer_count {Reconnect} (clearTimeout i s) = 0"
          by (simp only: so)
        then show ?thesis
          using TimerFire Some True
            connect_conn [of b "console_log ''Attempting to reconnect...'' (clearTimeout i s)"]
          by (simp add: console_log_def clearTimeout_def timer_count_def)
      next
        case False
        have "timer_count {Reconnect} (clearTimeout i s) \<le> timer_count {Reconnect} s"
          by (rule tc_clearTimeout)
        moreover have "sockets (clearTimeout i s) = sockets s" by (simp add: clearTimeout_def)
        ultimately show ?thesis using k TimerFire Some False
          by (simp add: run_callback_conn)
      qed
    qed
  next
    case (AnimationFrame now)
    show ?thesis
    proof (cases "raf s")
      case None
      then show ?thesis using k AnimationFrame by simp
    next
      case (Some cl)
      then show ?thesis
        using k AnimationFrame tc_animate [of "{Reconnect}" cl now "s\<lparr>raf := None\<rparr>"]
        by (simp add: animate_sockets)
    qed
  next
    case KeyC
    then show ?thesis using k by (simp add: toggleConfigMode_def timer_count_def)
  next
    case (HandleMouseDown x y)
    then show ?thesis using k by (simp add: startResize_def timer_count_def)
  next
    case (MouseMove x y)
    then show ?thesis using k by (simp add: resize_def Let_def timer_count_def)
  next
    case (MouseUp x y)
    then show ?thesis using k by (simp add: stopResize_def Let_def timer_count_def send_frame)
  next
    case ResetClick
    then show ?thesis using k
      by (simp add: resetPositions_def applyPositions_def defaults_def Let_def timer_count_def send_frame)
  qed
  then show ?thesis by (simp add: conn_inv_def reconnect_count)
qed

lemma conn_page_load: "conn_inv (page_load throws cfg)"
  by (simp add: conn_inv_def reconnect_timers_def init_defs connect_def Let_def prim_defs
      toggleConfigMode_def)

lemma conn_run: "conn_inv s \<Longrightarrow> conn_inv (run evs s)"
  unfolding run_def by (induction evs arbitrary: s) (simp_all add: conn_step)

lemma close_schedules:
  assumes "readyState s i \<noteq> None"
  shows "timers (step (SocketClose i) s) = timers s @ [(next_timer s, Reconnect, 3000)]"
  using assms
  by (simp add: onclose_def Let_def setTimeout_def console_log_def RECONNECT_INTERVAL_def)

lemma error_keeps:
  "timers (step (SocketError i) s) = timers s" "next_timer (step (SocketError i) s) = next_timer s"
  "readyState (step (SocketError i) s) j = readyState s j"
  by (simp_all add: onerror_def console_error_def readyState_def)

lemma fire_reconnect:
  assumes "find (\<lambda>t. fst t = j) (timers s) = Some (j, Reconnect, d)"
  shows "timers (step (TimerFire j True) s)
           = filter (\<lambda>t. fst t \<noteq> j) (timers s) @ [(next_timer s, Reconnect, 3000)]"
    and "timers (step (TimerFire j False) s) = filter (\<lambda>t. fst t \<noteq> j) (timers s)"
  using assms
  by (simp_all add: connect_def Let_def setTimeout_def clearTimeout_def console_log_def
      console_error_def RECONNECT_INTERVAL_def)

text \<open>
  Claim C5. In every state that the page reaches, at most one reconnect timer is pending.
  When a socket closes, also after its error (the browser follows the error of a socket
  with its close), and when a reconnect attempt fails because the constructor throws, the
  pending reconnect timers are exactly the one new timer, with the delay 3000: no earlier
  one is left beside it. When a reconnect attempt makes a socket, none is pending.
\<close>

theorem reconnect_timer_unique:
  assumes "s = run evs (page_load throws cfg)"
  shows "length (reconnect_timers s) \<le> 1
     \<and> (readyState s i \<noteq> None \<longrightarrow>
          reconnect_timers (step (SocketClose i) s) = [(next_timer s, Reconnect, 3000)]
          \<and> reconnect_timers (step (SocketClose i) (step (SocketError i) s))
              = [(next_timer s, Reconnect, 3000)])
     \<and> (find (\<lambda>t. fst t = j) (timers s) = Some (j, Reconnect, d) \<longrightarrow>
          reconnect_timers (step (TimerFire j True) s) = [(next_timer s, Reconnect, 3000)]
          \<and> reconnect_timers (step (TimerFire j False) s) = [])"
proof -
  have inv: "conn_inv s"
    unfolding assms by (rule conn_run [OF conn_page_load])
  then have k: "length (sockets s) + length (reconnect_timers s) \<le> 1"
    by (simp add: conn_inv_def)
  have one: "length (reconnect_timers s) \<le> 1" using k by simp
  have lost: "reconnect_timers (step (SocketClose i) s) = [(next_timer s, Reconnect, 3000)]
      \<and> reconnect_timers (step (SocketClose i) (step (SocketError i) s)) = [(next_timer s, Reconnect, 3000)]"
    if live: "readyState s i \<noteq> None"
  proof -
    have "sockets s \<noteq> []" using live by (auto simp: readyState_def)
    then have "0 < length (sockets s)" by simp
    then have "length (reconnect_timers s) = 0" using k by linarith
    then have none: "reconnect_timers s = []" by simp
    have live': "readyState (step (SocketError i) s) i \<noteq> None"
      unfolding error_keeps(3) by (rule live)
    have a: "reconnect_timers (step (SocketClose i) s) = [(next_timer s, Reconnect, 3000)]"
      unfolding reconnect_timers_def close_schedules [OF live]
      using none by (simp add: reconnect_timers_def)
    have b: "reconnect_timers (step (SocketClose i) (step (SocketError i) s)) = [(next_timer s, Reconnect, 3000)]"
      unfolding reconnect_timers_def close_schedules [OF live'] error_keeps
      using none by (simp add: reconnect_timers_def)
    show ?thesis using a b by simp
  qed
  have fired: "reconnect_timers (step (TimerFire j True) s) = [(next_timer s, Reconnect, 3000)]
      \<and> reconnect_timers (step (TimerFire j False) s) = []"
    if f: "find (\<lambda>t. fst t = j) (timers s) = Some (j, Reconnect, d)"
  proof -
    have "length (filter (\<lambda>t. fst (snd t) = Reconnect) (filter (\<lambda>t. fst t \<noteq> j) (timers s)))
            < length (filter (\<lambda>t. fst (snd t) = Reconnect) (timers s))"
      by (rule fired_count [OF f]) simp
    moreover have "length (filter (\<lambda>t. fst (snd t) = Reconnect) (timers s)) \<le> 1"
      using one by (simp only: reconnect_timers_def)
    ultimately have "length (filter (\<lambda>t. fst (snd t) = Reconnect) (filter (\<lambda>t. fst t \<noteq> j) (timers s))) = 0"
      by linarith
    then have none: "filter (\<lambda>t. fst (snd t) = Reconnect) (filter (\<lambda>t. fst t \<noteq> j) (timers s)) = []"
      by (simp del: filter_filter)
    show ?thesis
      unfolding reconnect_timers_def fire_reconnect [OF f]
      using none by (simp del: filter_filter)
  qed
  show ?thesis using one lost fired by blast
qed

theorem reconnect_timer_unique_witness:
  "readyState load_ok 0 \<noteq> None
   \<and> reconnect_timers (step (SocketClose 0) load_ok) = [(next_timer load_ok, Reconnect, 3000)]
   \<and> reconnect_timers (step (SocketClose 0) (step (SocketError 0) load_ok)) = [(next_timer load_ok, Reconnect, 3000)]
   \<and> find (\<lambda>t. fst t = 1) (timers load_failed) = Some (1, Reconnect, 3000)
   \<and> length (reconnect_timers load_failed) \<le> 1
   \<and> reconnect_timers (step (TimerFire 1 True) load_failed) = [(next_timer load_failed, Reconnect, 3000)]
   \<and> reconnect_timers (step (TimerFire 1 False) load_failed) = []"
proof -
  have a: "readyState load_ok 0 \<noteq> None"
    by (simp add: load_ok_def init_defs connect_def Let_def prim_defs)
  have b: "find (\<lambda>t. fst t = 1) (timers load_failed) = Some (1, Reconnect, 3000)"
    by (simp add: load_failed_def init_defs connect_def Let_def prim_defs RECONNECT_INTERVAL_def)
  show ?thesis
    using reconnect_timer_unique [of load_ok "[]" False False 0 1 3000, OF load_ok_def]
          reconnect_timer_unique [of load_failed "[]" True False 0 1 3000, OF load_failed_def] a b
    by blast
qed

section \<open>One display at a time\<close>

lemma added_result [simp]:
  "added result_callbacks ShowResultFade = 1" "added result_callbacks ShowResultClear = 1"
  "added result_callbacks HideContainer = 0" "added result_callbacks Reconnect = 0"
  by (simp_all add: added_def result_callbacks_def)

lemma session_shrink:
  assumes "session_inv s" "timer_count result_callbacks s' \<le> timer_count result_callbacks s"
    and "isSpinning (wheel s') = isSpinning (wheel s)"
    and "isShowingResult (wheel s') = isShowingResult (wheel s)" and "raf s' = raf s"
  shows "session_inv s'"
proof -
  have a: "timer_count result_callbacks s \<le> 1"
    and b: "timer_count result_callbacks s = 1 \<longrightarrow> isShowingResult (wheel s) \<and> \<not> isSpinning (wheel s)"
    and c: "raf s \<noteq> None \<longrightarrow> isSpinning (wheel s)"
    using assms(1) by (simp_all add: session_inv_def)
  have "timer_count result_callbacks s' = 1 \<longrightarrow> timer_count result_callbacks s = 1"
    using a assms(2) by linarith
  then show ?thesis using a b c assms(2-5) by (simp add: session_inv_def)
qed

lemma session_idle:
  assumes "session_inv s" "\<not> isBusy (wheel s)"
  shows "timer_count result_callbacks s = 0" "raf s = None"
proof -
  have "timer_count result_callbacks s \<noteq> 1" using assms by (auto simp: session_inv_def isBusy_def)
  moreover have "timer_count result_callbacks s \<le> 1" using assms(1) by (simp add: session_inv_def)
  ultimately show "timer_count result_callbacks s = 0" by linarith
  show "raf s = None" using assms by (auto simp: session_inv_def isBusy_def)
qed

lemma session_spinning:
  assumes "session_inv s" "isSpinning (wheel s)"
  shows "timer_count result_callbacks s = 0"
proof -
  have "timer_count result_callbacks s \<noteq> 1" using assms by (auto simp: session_inv_def)
  moreover have "timer_count result_callbacks s \<le> 1" using assms(1) by (simp add: session_inv_def)
  ultimately show ?thesis by linarith
qed

lemma animate_unfold:
  "animate cl now s =
     (if spin_progress cl now < 1
      then s\<lparr>wheel := (wheel s)\<lparr>currentRotation :=
               startRotation cl + totalRotation cl * (1 - (1 - spin_progress cl now) ^ 3)\<rparr>,
             raf := Some cl\<rparr>
      else afterSpin (wheelData cl)
             (winner_of (hd (finish_steps (s\<lparr>wheel := (wheel s)\<lparr>currentRotation :=
                startRotation cl + totalRotation cl * (1 - (1 - spin_progress cl now) ^ 3)\<rparr>\<rparr>))))
             (last (finish_steps (s\<lparr>wheel := (wheel s)\<lparr>currentRotation :=
                startRotation cl + totalRotation cl * (1 - (1 - spin_progress cl now) ^ 3)\<rparr>\<rparr>))))"
  unfolding animate_def spin_progress_def Let_def by simp

lemma animate_raf_flags:
  "spin_progress cl now < 1 \<Longrightarrow>
     raf (animate cl now s) = Some cl \<and> isSpinning (wheel (animate cl now s)) = isSpinning (wheel s)
     \<and> timers (animate cl now s) = timers s"
  "\<not> spin_progress cl now < 1 \<Longrightarrow>
     raf (animate cl now s) = raf s \<and> \<not> isSpinning (wheel (animate cl now s))
     \<and> isShowingResult (wheel (animate cl now s))"
  by (simp_all add: animate_unfold afterSpin_frame finish_steps_frame)

lemma session_animate:
  assumes "timer_count result_callbacks s = 0" "isSpinning (wheel s)" "raf s = None"
  shows "session_inv (animate cl now s)"
proof (cases "spin_progress cl now < 1")
  case True
  then show ?thesis using assms animate_raf_flags(1) [OF True, of s]
    by (simp add: session_inv_def timer_count_def)
next
  case False
  have "timer_count result_callbacks (animate cl now s) \<le> 1"
    using tc_animate [of result_callbacks cl now s] assms(1) by simp
  then show ?thesis using assms(3) animate_raf_flags(2) [OF False, of s]
    by (simp add: session_inv_def)
qed

lemma session_spin:
  assumes "session_inv s" "\<not> isBusy (wheel s)"
  shows "session_inv (spin rd d s)"
proof (cases "isSpinning (wheel s) \<or> length (items (wheel s)) = 0")
  case True
  then show ?thesis using assms(1) by (simp add: spin_def afterSpin_def)
next
  case False
  let ?s2 = "s\<lparr>wheel := (wheel s)\<lparr>isSpinning := True\<rparr>,
               page := (page s)\<lparr>container_hidden := False\<rparr>\<rparr>"
  have "\<exists>cl. spin rd d s = animate cl (now1 rd) ?s2"
    using False by (auto simp: spin_def Let_def)
  then obtain cl where e: "spin rd d s = animate cl (now1 rd) ?s2" by auto
  have "timer_count result_callbacks ?s2 = 0" "isSpinning (wheel ?s2)" "raf ?s2 = None"
    using session_idle [OF assms] by simp_all
  then show ?thesis unfolding e by (rule session_animate)
qed

lemma session_spinAndShow:
  assumes "session_inv s"
  shows "session_inv (spinAndShow rd d s)"
proof (cases "isBusy (wheel s)")
  case True
  then show ?thesis using assms
    by (simp add: spinAndShow_def console_warn_def session_inv_def timer_count_def)
next
  case False
  have z: "timer_count result_callbacks s = 0" "raf s = None"
    using session_idle [OF assms False] by simp_all
  have "timer_count result_callbacks (reset s) = 0"
    using tc_reset [of result_callbacks s] z(1) by simp
  then have i: "session_inv (reset s)" using z(2) by (simp add: session_inv_def reset_frame)
  have b: "\<not> isBusy (wheel (reset s))" using False by (simp add: isBusy_def reset_frame)
  show ?thesis using False session_spin [OF i b] by (simp add: spinAndShow_def)
qed

lemma session_fields [simp]:
  "session_inv (s\<lparr>page := p\<rparr>) = session_inv s"
  "session_inv (s\<lparr>console := c\<rparr>) = session_inv s"
  "session_inv (s\<lparr>sent := f\<rparr>) = session_inv s"
  "session_inv (s\<lparr>ws := x\<rparr>) = session_inv s"
  "session_inv (s\<lparr>sockets := so\<rparr>) = session_inv s"
  "session_inv (s\<lparr>next_socket := n\<rparr>) = session_inv s"
  "session_inv (s\<lparr>reconnectTimeout := rt\<rparr>) = session_inv s"
  "session_inv (s\<lparr>configMode := cm\<rparr>) = session_inv s"
  "session_inv (s\<lparr>wheel := (wheel s)\<lparr>items := xs\<rparr>\<rparr>) = session_inv s"
  by (simp_all add: session_inv_def timer_count_def)

lemma session_onmessage:
  assumes "session_inv s"
  shows "session_inv (onmessage rd ev s)"
proof -
  have t: "session_inv s'" if "handleEvent rd e s0 = Inr s'" "session_inv s0" for e s0 s'
  proof (cases e)
    case (TriggerAction a d)
    show ?thesis
    proof (cases "a = ''spin_wheel'' \<and> (\<exists>x. d = Some x \<and> items_truthy (d_items x) \<and> Array_isArray (d_items x))")
      case True
      then obtain x where "d = Some x" "items_truthy (d_items x) \<and> Array_isArray (d_items x)" by auto
      then have "s' = spinAndShow rd x (setItems (items_of (d_items x)) s0)"
        using that TriggerAction True by (simp add: handleTriggerAction_def)
      moreover have "session_inv (setItems (items_of (d_items x)) s0)"
        using that(2) by (simp add: setItems_def)
      ultimately show ?thesis by (simp add: session_spinAndShow)
    next
      case False
      then show ?thesis using that TriggerAction
        by (cases d) (auto simp: handleTriggerAction_def console_warn_def split: if_splits)
    qed
  next
    case (ConfigUpdate ps)
    then show ?thesis using that
      by (auto simp: handleConfigUpdate_def applyPositions_def Let_def split: option.splits)
  next
    case Ping
    then show ?thesis using that by auto
  next
    case (UnknownType t)
    then show ?thesis using that by (auto simp: console_warn_def)
  qed
  show ?thesis
  proof (cases ev)
    case None
    then show ?thesis using assms by (simp add: onmessage_def console_error_def)
  next
    case (Some e)
    have s0: "session_inv (console_log ''Received event:'' s)"
      using assms by (simp add: console_log_def)
    show ?thesis
    proof (cases "handleEvent rd e (console_log ''Received event:'' s)")
      case (Inl x)
      then show ?thesis using Some s0 by (simp add: onmessage_def Let_def console_error_def)
    next
      case (Inr s')
      then show ?thesis using Some t [OF Inr s0] by (simp add: onmessage_def Let_def)
    qed
  qed
qed

lemma onopen_frame:
  "wheel (onopen s) = wheel s" "raf (onopen s) = raf s"
  "timer_count C (onopen s) \<le> timer_count C s"
proof -
  show "wheel (onopen s) = wheel s" "raf (onopen s) = raf s"
    by (simp_all add: onopen_def Let_def send_frame console_log_def clearTimeout_def split: option.splits)
  show "timer_count C (onopen s) \<le> timer_count C s"
    using tc_clearTimeout [of C _ "console_log ''WebSocket connected'' s"]
    by (simp add: onopen_def Let_def tc_send console_log_def split: option.splits)
qed

lemma onclose_frame:
  "wheel (onclose s) = wheel s" "raf (onclose s) = raf s"
  "timer_count C (onclose s) = timer_count C s + added C Reconnect"
  by (simp_all add: onclose_def Let_def setTimeout_def console_log_def timer_count_def added_def)

lemma connect_frame:
  "raf (connect b s) = raf s"
  "timer_count C (connect b s) = timer_count C s + (if b then added C Reconnect else 0)"
  by (simp_all add: connect_def Let_def setTimeout_def console_log_def console_error_def
      timer_count_def added_def)

lemma find_counts:
  "find (\<lambda>t. fst t = i) ts = Some t \<Longrightarrow> P t \<Longrightarrow> 0 < length (filter P ts)"
  using fired_count [of i ts t P] by linarith

lemma session_fire:
  assumes "session_inv s" "find (\<lambda>t. fst t = i) (timers s) = Some t"
  shows "session_inv (run_callback (fst (snd t)) b (clearTimeout i s))"
proof -
  let ?s0 = "clearTimeout i s"
  have fl: "wheel ?s0 = wheel s" "raf ?s0 = raf s" by (simp_all add: clearTimeout_def)
  have le: "timer_count result_callbacks ?s0 \<le> timer_count result_callbacks s"
    by (rule tc_clearTimeout)
  have s0: "session_inv ?s0"
    using assms(1) le by (rule session_shrink) (simp_all add: fl)
  have res: "timer_count result_callbacks ?s0 = 0
       \<and> isShowingResult (wheel s) \<and> \<not> isSpinning (wheel s)"
    if "fst (snd t) \<in> result_callbacks"
  proof -
    have "timer_count result_callbacks ?s0 < timer_count result_callbacks s"
      using fired_count [OF assms(2), of "\<lambda>t. fst (snd t) \<in> result_callbacks"] that
      by (simp add: timer_count_def clearTimeout_def del: filter_filter)
    moreover have "timer_count result_callbacks s \<le> 1"
      using assms(1) by (simp add: session_inv_def)
    ultimately have "timer_count result_callbacks ?s0 = 0 \<and> timer_count result_callbacks s = 1"
      by linarith
    then show ?thesis using assms(1) by (simp add: session_inv_def)
  qed
  have r: "raf s \<noteq> None \<longrightarrow> isSpinning (wheel s)"
    using assms(1) by (simp add: session_inv_def)
  show ?thesis
  proof (cases "fst (snd t)")
    case ShowResultFade
    then have "fst (snd t) \<in> result_callbacks" by (simp add: result_callbacks_def)
    then show ?thesis using res r ShowResultFade
      by (simp add: session_inv_def setTimeout_def timer_count_def fl result_callbacks_def)
  next
    case ShowResultClear
    then have "fst (snd t) \<in> result_callbacks" by (simp add: result_callbacks_def)
    then show ?thesis using res r ShowResultClear
      by (simp add: session_inv_def timer_count_def fl)
  next
    case HideContainer
    then show ?thesis using s0 by simp
  next
    case Reconnect
    have "session_inv (connect b (console_log ''Attempting to reconnect...'' ?s0))"
      using s0
    proof (rule session_shrink)
      show "timer_count result_callbacks (connect b (console_log ''Attempting to reconnect...'' ?s0))
              \<le> timer_count result_callbacks ?s0"
        by (simp add: connect_frame console_log_def)
    qed (simp_all add: connect_wheel connect_frame console_log_def)
    then show ?thesis using Reconnect by simp
  qed
qed

lemma session_step:
  assumes "session_inv s"
  shows "session_inv (step e s)"
proof (cases e)
  case (SocketOpen i)
  let ?s0 = "s\<lparr>sockets := map (\<lambda>(j, r). if j = i then (j, OPEN) else (j, r)) (sockets s)\<rparr>"
  have "session_inv ?s0" using assms by simp
  then have "session_inv (onopen ?s0)"
  proof (rule session_shrink)
    show "timer_count result_callbacks (onopen ?s0) \<le> timer_count result_callbacks ?s0"
      by (rule onopen_frame)
  qed (simp_all add: onopen_frame)
  then show ?thesis using assms SocketOpen by simp
next
  case (SocketMessage i ev rd)
  then show ?thesis using assms by (simp add: session_onmessage)
next
  case (SocketError i)
  then show ?thesis using assms by (simp add: onerror_def console_error_def)
next
  case (SocketClose i)
  let ?s0 = "s\<lparr>sockets := filter (\<lambda>p. fst p \<noteq> i) (sockets s)\<rparr>"
  have "session_inv ?s0" using assms by simp
  then have "session_inv (onclose ?s0)"
  proof (rule session_shrink)
    show "timer_count result_callbacks (onclose ?s0) \<le> timer_count result_callbacks ?s0"
      by (simp only: onclose_frame added_result)
  qed (simp_all add: onclose_frame)
  then show ?thesis using assms SocketClose by simp
next
  case (TimerFire i b)
  then show ?thesis using assms session_fire [OF assms, of i _ b]
    by (simp split: option.splits)
next
  case (AnimationFrame now)
  show ?thesis
  proof (cases "raf s")
    case None
    then show ?thesis using assms AnimationFrame by simp
  next
    case (Some cl)
    then have sp: "isSpinning (wheel s)" using assms by (simp add: session_inv_def)
    have z: "timer_count result_callbacks s = 0" using assms sp by (rule session_spinning)
    have "session_inv (animate cl now (s\<lparr>raf := None\<rparr>))"
      by (rule session_animate) (simp_all add: z sp)
    then show ?thesis using AnimationFrame Some by simp
  qed
next
  case KeyC
  then show ?thesis using assms by (simp add: toggleConfigMode_def)
next
  case (HandleMouseDown x y)
  then show ?thesis using assms by (simp add: startResize_def session_inv_def timer_count_def)
next
  case (MouseMove x y)
  then show ?thesis using assms by (simp add: resize_def Let_def)
next
  case (MouseUp x y)
  then show ?thesis using assms
    by (simp add: stopResize_def Let_def session_inv_def timer_count_def send_frame)
next
  case ResetClick
  then show ?thesis using assms
    by (simp add: resetPositions_def applyPositions_def defaults_def Let_def session_inv_def
        timer_count_def send_frame)
qed

lemma session_page_load: "session_inv (page_load throws cfg)"
  by (simp add: session_inv_def timer_count_def result_callbacks_def init_defs connect_def Let_def
      prim_defs toggleConfigMode_def)

lemma session_run: "session_inv s \<Longrightarrow> session_inv (run evs s)"
  unfolding run_def by (induction evs arbitrary: s) (simp_all add: session_step)

lemma spinning_not_ended:
  assumes "session_inv s" "isSpinning (wheel s)"
  shows "\<not> ends_display e s"
proof
  assume e: "ends_display e s"
  then obtain i b where ev: "e = TimerFire i b" by (cases e) auto
  then obtain t where t: "find (\<lambda>t. fst t = i) (timers s) = Some t" "fst (snd t) = ShowResultClear"
    using e by (auto split: option.splits)
  have "0 < timer_count result_callbacks s"
    unfolding timer_count_def
    by (rule find_counts [OF t(1)]) (simp add: t(2) result_callbacks_def)
  then show False using session_spinning [OF assms] by simp
qed

text \<open>
  Claim C6. In every state that the page reaches: an accepted trigger leaves the wheel
  busy; while the wheel spins, no input makes it idle; in the last call of
  \<open>animate\<close> the wheel is busy after each assignment, so no state between Spinning
  and ShowingResult is idle; and a busy wheel stays busy under every input except the
  timer that ends the display of the result.
\<close>

theorem busy_until_display_ends:
  assumes "s = run evs (page_load throws cfg)"
  shows "(accepts d s \<and> readyState s i = Some OPEN \<longrightarrow>
            isBusy (wheel (step (SocketMessage i (Some (TriggerAction ''spin_wheel'' (Some d))) rd) s)))
       \<and> (isSpinning (wheel s) \<longrightarrow> isBusy (wheel (step e s)))
       \<and> (raf s = Some cl \<longrightarrow>
            (\<forall>s' \<in> set (finish_steps (s\<lparr>raf := None, wheel := (wheel s)\<lparr>currentRotation := rot\<rparr>\<rparr>)).
               isBusy (wheel s')))
       \<and> (isBusy (wheel s) \<and> \<not> ends_display e s \<longrightarrow> isBusy (wheel (step e s)))"
proof -
  have inv: "session_inv s"
    unfolding assms by (rule session_run [OF session_page_load])
  have a: "isBusy (wheel (step (SocketMessage i (Some (TriggerAction ''spin_wheel'' (Some d))) rd) s))"
    if "accepts d s" "readyState s i = Some OPEN"
    using that by (rule busy_accept)
  have b: "isBusy (wheel (step e s))" if "isSpinning (wheel s)"
  proof (rule busy_step)
    show "isBusy (wheel s)" using that by (simp add: isBusy_def)
    show "\<not> ends_display e s" using inv that by (rule spinning_not_ended)
  qed
  have c: "\<forall>s' \<in> set (finish_steps (s\<lparr>raf := None, wheel := (wheel s)\<lparr>currentRotation := rot\<rparr>\<rparr>)).
             isBusy (wheel s')" if "raf s = Some cl"
  proof -
    have "isSpinning (wheel s)" using inv that by (simp add: session_inv_def)
    then have "isSpinning (wheel (s\<lparr>raf := None, wheel := (wheel s)\<lparr>currentRotation := rot\<rparr>\<rparr>))"
      by simp
    then show ?thesis using busy_finish_steps by blast
  qed
  have d: "isBusy (wheel (step e s))" if "isBusy (wheel s)" "\<not> ends_display e s"
    using that by (rule busy_step)
  show ?thesis using a b c d by blast
qed

lemma spinning_reached:
  "spinning d = run [SocketOpen 0, trigger d] (page_load False False)"
  by (simp add: spinning_def connected_def run_def)

lemma finish_steps_length: "length (finish_steps s) = 3"
  by (simp add: finish_steps_def Let_def)

lemma all_busy_map:
  "length xs = 3 \<Longrightarrow> (\<forall>s' \<in> set xs. isBusy (wheel s')) \<Longrightarrow>
     map (\<lambda>s'. isBusy (wheel s')) xs = [True, True, True]"
  by (cases xs; simp; cases "tl xs"; simp; cases "tl (tl xs)"; simp)

theorem busy_until_display_ends_witness:
  "accepts abc_data connected \<and> readyState connected 0 = Some OPEN
   \<and> isBusy (wheel (step (SocketMessage 0 (Some (TriggerAction ''spin_wheel'' (Some abc_data))) reads0) connected))
   \<and> isSpinning (wheel (spinning abc_data))
   \<and> isBusy (wheel (step (AnimationFrame 4000) (spinning abc_data)))
   \<and> raf (spinning abc_data) = Some \<lparr>startTime = 0, startRotation = 0, totalRotation = 6 * pi, wheelData = abc_data\<rparr>
   \<and> map (\<lambda>s'. isBusy (wheel s')) (finish_steps ((spinning abc_data)\<lparr>raf := None,
          wheel := (wheel (spinning abc_data))\<lparr>currentRotation := 6 * pi\<rparr>\<rparr>)) = [True, True, True]
   \<and> isBusy (wheel (spinning abc_data)) \<and> \<not> ends_display (TimerFire 1 False) (spinning abc_data)
   \<and> isBusy (wheel (step (TimerFire 1 False) (spinning abc_data)))"
proof -
  have a: "d_items abc_data = ItemsArray [''A'', ''B'', ''C'']" by (simp add: abc_data_def)
  note f = spinning_facts [OF _ a, simplified]
  have acc: "accepts abc_data connected"
    using connected_facts(4) by (simp add: accepts_def a)
  have b: "isBusy (wheel (spinning abc_data))" using f(1) by (simp add: isBusy_def)
  have n: "\<not> ends_display (TimerFire 1 False) (spinning abc_data)" by (simp add: f)
  have c: "connected = run [SocketOpen 0] (page_load False False)" by (rule connected_def)
  have m: "map (\<lambda>s'. isBusy (wheel s')) (finish_steps ((spinning abc_data)\<lparr>raf := None,
          wheel := (wheel (spinning abc_data))\<lparr>currentRotation := 6 * pi\<rparr>\<rparr>)) = [True, True, True]"
    using busy_until_display_ends [OF spinning_reached, where rot = "6 * pi"] f(5)
    by (intro all_busy_map finish_steps_length) blast
  show ?thesis
    using busy_until_display_ends [OF c, of abc_data 0 reads0]
          busy_until_display_ends [OF spinning_reached, where e = "AnimationFrame 4000"]
          busy_until_display_ends [OF spinning_reached, where e = "TimerFire 1 False"]
          acc connected_facts(1) f(1) f(5) b n m
    by blast
qed

section \<open>Two runs\<close>

text \<open>
  The end-to-end test of the specification: a trigger with the items A, B, C and an action
  for A, on the connected idle page, with random numbers 0; the frame after the duration
  completes the spin on A, and one result message with the action of A is transmitted.
\<close>

lemma spec_index_three_turns: "0 < n \<Longrightarrow> spec_winner_index n (6 * pi) = 0"
  using winnerIndex_spec [of n "6 * pi"] winnerIndex_zero [of "6 * pi" n] three_turns
  by simp

lemma abc_spin_reports_once:
  "sent (run [trigger abc_data, AnimationFrame 4000] connected)
     = sent connected @ [(0, JSON_stringify (WheelResult ''A'' (Some (JObj [(''cmd'', JNum 1)]))))]"
proof -
  let ?cl = "\<lparr>startTime = 0, startRotation = 0, totalRotation = 6 * pi, wheelData = abc_data\<rparr>"
  have a: "d_items abc_data = ItemsArray [''A'', ''B'', ''C'']" by (simp add: abc_data_def)
  note f = spinning_facts [OF _ a, simplified]
  have o: "ws_open (spinning abc_data)" by (simp add: ws_open_def f)
  have d: "spinDuration \<le> real_of_int (4000 - startTime ?cl)" by (simp add: spinDuration_def)
  have n: "items (wheel (spinning abc_data)) \<noteq> []" by (simp add: f)
  have w: "''A'' = items (wheel (spinning abc_data)) !
      nat (spec_winner_index (length (items (wheel (spinning abc_data)))) (startRotation ?cl + totalRotation ?cl))"
    by (simp add: f spec_index_three_turns)
  have st: "sent (step (AnimationFrame 4000) (spinning abc_data))
      = sent (spinning abc_data) @ [(0, JSON_stringify (WheelResult ''A'' (action_of (wheelData ?cl) ''A'')))]"
    by (rule completed_spin_reports_once(1) [OF f(5) n d o f(4) w]) simp
  have act: "action_of (wheelData ?cl) ''A'' = Some (JObj [(''cmd'', JNum 1)])"
    by (simp add: action_of_def abc_data_def)
  have run: "run [trigger abc_data, AnimationFrame 4000] connected
      = step (AnimationFrame 4000) (spinning abc_data)"
    unfolding run_def spinning_def by simp
  show ?thesis unfolding run using st by (simp only: act f(6))
qed

text \<open>
  The same run with a second trigger, for the item X, delivered while the wheel spins: the
  second trigger is refused, and the result of the first is X, with no action.
\<close>

lemma replaced_items_reported:
  "sent (run [trigger abc_data, trigger (labels_data [''X'']), AnimationFrame 4000] connected)
     = sent connected @ [(0, JSON_stringify (WheelResult ''X'' None))]"
proof -
  let ?cl = "\<lparr>startTime = 0, startRotation = 0, totalRotation = 6 * pi, wheelData = abc_data\<rparr>"
  have a: "d_items abc_data = ItemsArray [''A'', ''B'', ''C'']" by (simp add: abc_data_def)
  note f = spinning_facts [OF _ a, simplified]
  have b: "isBusy (wheel (spinning abc_data))" using f(1) by (simp add: isBusy_def)
  let ?s = "(spinning abc_data)\<lparr>wheel := (wheel (spinning abc_data))\<lparr>items := [''X'']\<rparr>,
      console := console (spinning abc_data) @ [Log ''Received event:'', Warn busy_message]\<rparr>"
  have s2: "step (trigger (labels_data [''X''])) (spinning abc_data) = ?s"
    using busy_trigger_effect [OF b f(3), of "labels_data [''X'']" reads0]
    by (simp add: trigger_def labels_data_def)
  have r: "raf ?s = Some ?cl" by (simp add: f)
  have o: "ws_open ?s" by (simp add: ws_open_def f readyState_def) (use f(3) in \<open>simp add: readyState_def\<close>)
  have wsi: "ws ?s = Some 0" by (simp add: f)
  have d: "spinDuration \<le> real_of_int (4000 - startTime ?cl)" by (simp add: spinDuration_def)
  have n: "items (wheel ?s) \<noteq> []" by simp
  have w: "''X'' = items (wheel ?s) !
      nat (spec_winner_index (length (items (wheel ?s))) (startRotation ?cl + totalRotation ?cl))"
    by (simp add: spec_index_three_turns)
  have st: "sent (step (AnimationFrame 4000) ?s)
      = sent ?s @ [(0, JSON_stringify (WheelResult ''X'' (action_of (wheelData ?cl) ''X'')))]"
    by (rule completed_spin_reports_once(1) [OF r n d o wsi w]) simp
  have act: "action_of (wheelData ?cl) ''X'' = None"
    by (simp add: action_of_def abc_data_def)
  have se: "sent ?s = sent connected" by (simp add: f)
  have run: "run [trigger abc_data, trigger (labels_data [''X'']), AnimationFrame 4000] connected
      = step (AnimationFrame 4000) (step (trigger (labels_data [''X''])) (spinning abc_data))"
    unfolding run_def spinning_def by simp
  show ?thesis unfolding run s2 using st by (simp only: act se)
qed

end
